theory Spec2Isabelle
  imports Main "HOL-Library.AList" "HOL-Library.Sublist"
begin

section \<open>JavaScript values\<close>

text \<open>
  The session cache stores the actor and asset descriptions it receives as plain
  JavaScript objects and merges them with the \<^verbatim>\<open>deepmerge\<close> package. A JavaScript
  object is an association list whose keys are in insertion order (the keys used here
  are names and identifiers, not array indices); numbers are kept as integers, since no
  function below computes with them.
\<close>

datatype json =
    JNull
  | JBool bool
  | JNum int
  | JStr string
  | JArr "json list"
  | JObj "(string \<times> json) list"

type_synonym obj = "(string \<times> json) list"

datatype error = TypeError

text \<open>JavaScript truthiness; \<open>None\<close> stands for \<^verbatim>\<open>undefined\<close>.\<close>

fun truthy :: "json \<Rightarrow> bool" where
  "truthy JNull = False"
| "truthy (JBool b) = b"
| "truthy (JNum n) = (n \<noteq> 0)"
| "truthy (JStr s) = (s \<noteq> [])"
| "truthy (JArr xs) = True"
| "truthy (JObj kvs) = True"

definition truthy_opt :: "json option \<Rightarrow> bool" where
  "truthy_opt v = (case v of None \<Rightarrow> False | Some j \<Rightarrow> truthy j)"

text \<open>
  \<open>jget k v\<close> is the property read \<^verbatim>\<open>v.k\<close> for a name \<open>k\<close> that is no built-in
  property: an own property of an object, \<^verbatim>\<open>undefined\<close> on every other value. The
  functions below read a property only from a value they have tested (or that is an
  object by construction); the one read that could throw is modelled where it stands.
\<close>

fun jget :: "string \<Rightarrow> json \<Rightarrow> json option" where
  "jget k (JObj kvs) = map_of kvs k"
| "jget k v = None"

fun get_path :: "json \<Rightarrow> string list \<Rightarrow> json option" where
  "get_path v [] = Some v"
| "get_path v (k # ks) = (case jget k v of None \<Rightarrow> None | Some w \<Rightarrow> get_path w ks)"

text \<open>\<^verbatim>\<open>delete v.k\<close>: removes an own property of an object, does nothing elsewhere.\<close>

fun jdelete :: "string \<Rightarrow> json \<Rightarrow> json" where
  "jdelete k (JObj kvs) = JObj (AList.delete k kvs)"
| "jdelete k v = v"

text \<open>An in-place change of the object stored under the property \<open>k\<close> of an object.\<close>

fun jmap_entry :: "string \<Rightarrow> (json \<Rightarrow> json) \<Rightarrow> json \<Rightarrow> json" where
  "jmap_entry k f (JObj kvs) = JObj (AList.map_entry k f kvs)"
| "jmap_entry k f v = v"

text \<open>
  A property name used as the key of one of the session's sets. The identifiers are
  declared \<^verbatim>\<open>string\<close>; an absent one indexes the set under \<^verbatim>\<open>"undefined"\<close>. The other
  kinds of value are outside the declared type and share that key here.
\<close>

fun key_of :: "json option \<Rightarrow> string" where
  "key_of (Some (JStr s)) = s"
| "key_of v = ''undefined''"

definition key :: "string option \<Rightarrow> string" where
  "key v = (case v of None \<Rightarrow> ''undefined'' | Some s \<Rightarrow> s)"

subsection \<open>Deep merge\<close>

text \<open>
  Modelled from the spec: \<^verbatim>\<open>deepmerge\<close> is imported from a package that is not part of
  the sources. Section 4.5 of the specification: for objects, keys from the update
  overlay existing keys; nested objects recurse; arrays in the update replace arrays in
  the target; primitive values in the update overwrite. The result keeps the target's
  keys in their order and appends the keys that only the update has.
\<close>

fun mergeObject :: "obj \<Rightarrow> obj \<Rightarrow> obj" where
  "mergeObject target source =
     map (\<lambda>(k, tv). (k,
            case map_of source k of
              None \<Rightarrow> tv
            | Some sv \<Rightarrow>
                (case tv of
                   JObj t \<Rightarrow> (case sv of JObj s \<Rightarrow> JObj (mergeObject t s) | _ \<Rightarrow> sv)
                 | _ \<Rightarrow> sv))) target
     @ filter (\<lambda>(k, sv). map_of target k = None) source"

definition deepmerge :: "json \<Rightarrow> json \<Rightarrow> json" where
  "deepmerge target source =
     (case target of
        JObj t \<Rightarrow> (case source of JObj s \<Rightarrow> JObj (mergeObject t s) | _ \<Rightarrow> source)
      | _ \<Rightarrow> source)"

text \<open>What the merge does to one property of the target.\<close>

definition overlay :: "obj \<Rightarrow> string \<times> json \<Rightarrow> string \<times> json" where
  "overlay source = (\<lambda>(k, tv). (k,
       case map_of source k of None \<Rightarrow> tv | Some sv \<Rightarrow> deepmerge tv sv))"

text \<open>
  A JavaScript object has each key once, and so have the objects stored in it.
\<close>

fun wf_obj :: "obj \<Rightarrow> bool" where
  "wf_obj kvs = (distinct (map fst kvs) \<and>
       list_all (\<lambda>(k, v). case v of JObj ob \<Rightarrow> wf_obj ob | _ \<Rightarrow> True) kvs)"

text \<open>Both equations are recursive under a binder: they are unfolded by hand.\<close>

declare mergeObject.simps [simp del] wf_obj.simps [simp del]

section \<open>Messages and the session's sync cache\<close>

text \<open>
  A message is \<^verbatim>\<open>{id?, replyToId?, payload}\<close>; every payload has a \<^verbatim>\<open>type\<close>. The
  payloads the cache reads extend the common part with the fields it reads; \<open>others\<close>
  holds the remaining properties of a payload, which no function below reads.
\<close>

record payload =
  ptype :: string
  others :: obj

record actor_payload = payload +
  actor :: obj

record asset_creation_payload = payload +
  containerId :: string
  definition_a :: "obj option"

record asset_update_payload = payload +
  asset :: obj

record 'p message =
  id_m :: "string option"
  replyToId :: "string option"
  payload :: 'p

type_synonym InitializeActorMessage = "actor_payload message"
type_synonym AssetCreationMessage = "asset_creation_payload message"

record InitializeActor =
  message :: InitializeActorMessage

text \<open>
  \<^verbatim>\<open>SyncActor\<close>. The session stores \<^verbatim>\<open>Partial<SyncActor>\<close>: the fields that
  \<^verbatim>\<open>cacheInitializeActorMessage\<close> does not set are optional, and opaque here.
\<close>

record SyncActor =
  actorId :: "json option"
  initialization :: InitializeActor
  createdAnimations :: "json option"
  activeMediaInstances :: "json option"
  activeInterpolations :: "json option"
  behavior :: "json option"
  grabbedBy :: "json option"
  exclusiveToUser :: "json option"

record SyncAsset =
  id_a :: string
  duration :: "int option"
  creatorMessageId :: "string option"
  update_a :: "asset_update_payload message option"

text \<open>
  \<^verbatim>\<open>Client\<close>. \<open>protocol_c\<close> is the protocol object the client currently runs
  (\<^verbatim>\<open>undefined\<close> before \<^verbatim>\<open>join\<close> and after \<^verbatim>\<open>leave\<close>); \<open>session_c\<close> says whether
  the back-reference \<^verbatim>\<open>_session\<close> is set: a client is a member of one session at
  most, so the reference is that session or \<^verbatim>\<open>undefined\<close>.
\<close>

datatype ClientProtocol = ClientHandshake | ClientSync | ClientExecution

record Client =
  id_c :: string
  order_c :: nat
  userId :: "string option"
  protocol_c :: "ClientProtocol option"
  session_c :: bool
  authoritativeFlag :: bool

text \<open>
  \<^verbatim>\<open>Session\<close>. The four sets are JavaScript objects used as dictionaries. \<open>protocol_s\<close>
  is the name of the protocol the session runs against the app (\<^verbatim>\<open>undefined\<close> before
  \<^verbatim>\<open>connect\<close>); \<open>toApp\<close> lists the messages handed to that protocol's
  \<^verbatim>\<open>sendMessage\<close>, oldest first; \<open>connClosed\<close> records a call of \<^verbatim>\<open>_conn.close()\<close>.
\<close>

record Session =
  clientSet :: "(string \<times> Client) list"
  actorSet :: "(string \<times> SyncActor) list"
  assetSet :: "(string \<times> SyncAsset) list"
  assetCreatorSet :: "(string \<times> AssetCreationMessage) list"
  userSet :: "(string \<times> obj) list"
  peerAuthoritative :: bool
  protocol_s :: "string option"
  toApp :: "payload message list"
  connClosed :: bool

subsection \<open>Actors\<close>

definition cachedActor :: "SyncActor \<Rightarrow> obj" where
  "cachedActor syncActor = actor (payload (message (initialization syncActor)))"

definition setCachedActor :: "obj \<Rightarrow> SyncActor \<Rightarrow> SyncActor" where
  "setCachedActor a syncActor =
     syncActor\<lparr>initialization := (initialization syncActor)\<lparr>message :=
       (message (initialization syncActor))\<lparr>payload :=
         (payload (message (initialization syncActor)))\<lparr>actor := a\<rparr>\<rparr>\<rparr>\<rparr>"

text \<open>
  \<^verbatim>\<open>Session.cacheInitializeActorMessage\<close>. \<^verbatim>\<open>deepmerge({ message }, {})\<close> is a deep
  copy of \<^verbatim>\<open>{ message }\<close>, which is the same value. In the second branch the source
  assigns a new payload to the caller's message and stores that message.
\<close>

definition cacheInitializeActorMessage :: "InitializeActorMessage \<Rightarrow> Session \<Rightarrow> Session" where
  "cacheInitializeActorMessage m s =
     (let k = key_of (map_of (actor (payload m)) ''id'') in
      case map_of (actorSet s) k of
        None \<Rightarrow>
          (let parent = map_of (actorSet s) (key_of (map_of (actor (payload m)) ''parentId''));
               inherited = (case parent of None \<Rightarrow> None | Some p \<Rightarrow> exclusiveToUser p)
           in s\<lparr>actorSet := AList.update k
                 \<lparr>actorId = map_of (actor (payload m)) ''id'',
                  initialization = \<lparr>message = m\<rparr>,
                  createdAnimations = None,
                  activeMediaInstances = None,
                  activeInterpolations = None,
                  behavior = None,
                  grabbedBy = None,
                  exclusiveToUser =
                    (if truthy_opt inherited then inherited
                     else map_of (actor (payload m)) ''exclusiveToUser'')\<rparr>
                 (actorSet s)\<rparr>)
      | Some syncActor \<Rightarrow>
          if ptype (payload (message (initialization syncActor))) = ''x-reserve-actor'' then
            s\<lparr>actorSet := AList.update k
                 (syncActor\<lparr>initialization := (initialization syncActor)\<lparr>message :=
                    m\<lparr>payload := (payload m)\<lparr>actor := cachedActor syncActor\<rparr>\<rparr>\<rparr>\<rparr>)
                 (actorSet s)\<rparr>
          else s)"

text \<open>
  The second half of \<^verbatim>\<open>Session.cacheActorUpdateMessage\<close>: strip the transform data
  that was not updated. \<open>cacheActor\<close> is the cached actor after the merge. Reading
  \<^verbatim>\<open>cacheTransform.local\<close>, or deleting \<^verbatim>\<open>cacheTransform.app\<close>, throws when the
  cached actor has no transform.
\<close>

definition strip_local :: "json \<Rightarrow> json" where
  "strip_local l = jdelete ''rotation'' (jdelete ''position'' l)"

definition stripTransform :: "obj \<Rightarrow> obj \<Rightarrow> error + obj" where
  "stripTransform cacheActor patchActor =
     (let cacheTransform = map_of cacheActor ''transform'';
          patchTransform = map_of patchActor ''transform'';
          elseBranch =
            (if truthy_opt patchTransform \<and> truthy_opt (Option.bind patchTransform (jget ''local''))
             then (case cacheTransform of
                     None \<Rightarrow> Inl TypeError
                   | Some ct \<Rightarrow>
                       if ct = JNull then Inl TypeError
                       else Inr (AList.map_entry ''transform'' (jdelete ''app'') cacheActor))
             else Inr cacheActor)
      in if truthy_opt patchTransform \<and> truthy_opt (Option.bind patchTransform (jget ''app''))
         then (case cacheTransform of
                 None \<Rightarrow> Inl TypeError
               | Some ct \<Rightarrow>
                   if ct = JNull then Inl TypeError
                   else if truthy_opt (jget ''local'' ct)
                   then Inr (AList.map_entry ''transform''
                               (jmap_entry ''local'' strip_local) cacheActor)
                   else elseBranch)
         else elseBranch)"

text \<open>
  \<^verbatim>\<open>Session.cacheActorUpdateMessage\<close>. The merged actor is stored before the
  transform is looked at, so the result is the session together with the exception, if
  one was thrown.
\<close>

definition cacheActorUpdateMessage ::
  "actor_payload message \<Rightarrow> Session \<Rightarrow> Session \<times> error option" where
  "cacheActorUpdateMessage m s =
     (let k = key_of (map_of (actor (payload m)) ''id'') in
      case map_of (actorSet s) k of
        None \<Rightarrow> (s, None)
      | Some syncActor \<Rightarrow>
          (let merged = mergeObject (cachedActor syncActor) (actor (payload m)) in
           case stripTransform merged (actor (payload m)) of
             Inl e \<Rightarrow>
               (s\<lparr>actorSet := AList.update k (setCachedActor merged syncActor) (actorSet s)\<rparr>,
                Some e)
           | Inr stripped \<Rightarrow>
               (s\<lparr>actorSet := AList.update k (setCachedActor stripped syncActor) (actorSet s)\<rparr>,
                None)))"

text \<open>The claims speak of what an update contains and of what is absent from the cache.\<close>

definition contains_path :: "obj \<Rightarrow> string list \<Rightarrow> bool" where
  "contains_path a path = truthy_opt (get_path (JObj a) path)"

definition absent_path :: "obj \<Rightarrow> string list \<Rightarrow> bool" where
  "absent_path a path = (get_path (JObj a) path = None)"

text \<open>Removing a set of keys from an object (several \<^verbatim>\<open>delete\<close>s).\<close>

definition drop_keys :: "string set \<Rightarrow> obj \<Rightarrow> obj" where
  "drop_keys K = filter (\<lambda>e. fst e \<notin> K)"

subsection \<open>Assets\<close>

text \<open>\<^verbatim>\<open>Session.cacheAssetCreationRequest\<close>.\<close>

definition cacheAssetCreationRequest :: "AssetCreationMessage \<Rightarrow> Session \<Rightarrow> Session" where
  "cacheAssetCreationRequest m s =
     s\<lparr>assetCreatorSet := AList.update (key (id_m m)) m (assetCreatorSet s)\<rparr>"

text \<open>
  \<^verbatim>\<open>deepmerge(creator.payload.definition, asset)\<close>: a target that is no object is
  replaced by the update.
\<close>

definition merge_definition :: "obj option \<Rightarrow> obj \<Rightarrow> obj" where
  "merge_definition d a = (case d of None \<Rightarrow> a | Some d' \<Rightarrow> mergeObject d' a)"

text \<open>
  \<^verbatim>\<open>Session.cacheAssetCreation\<close>. The source stores a new object
  \<^verbatim>\<open>{ id: assetId, duration }\<close> under the asset's id, looks the creator up, sets
  \<^verbatim>\<open>creatorMessageId\<close> on the new object, and then reads \<^verbatim>\<open>creator.payload.type\<close>
  (a TypeError when the creator is not cached) and the \<^verbatim>\<open>update\<close> of the new object.
\<close>

definition cacheAssetCreation ::
  "string \<Rightarrow> string \<Rightarrow> int option \<Rightarrow> Session \<Rightarrow> Session \<times> error option" where
  "cacheAssetCreation assetId creatorId dur s =
     (let syncAsset = \<lparr>id_a = assetId, duration = dur, creatorMessageId = None, update_a = None\<rparr>;
          creator = map_of (assetCreatorSet s) creatorId;
          syncAsset = syncAsset\<lparr>creatorMessageId := Some creatorId\<rparr>;
          s1 = s\<lparr>assetSet := AList.update assetId syncAsset (assetSet s)\<rparr>
      in case creator of
           None \<Rightarrow> (s1, Some TypeError)
         | Some c \<Rightarrow>
             (case update_a syncAsset of
                None \<Rightarrow> (s1, None)
              | Some upd \<Rightarrow>
                  if ptype (payload c) = ''create-asset'' then
                    (s1\<lparr>assetCreatorSet := AList.update creatorId
                          (c\<lparr>payload := (payload c)\<lparr>definition_a :=
                               Some (merge_definition (definition_a (payload c))
                                       (asset (payload upd)))\<rparr>\<rparr>)
                          (assetCreatorSet s1),
                        assetSet := AList.update assetId (syncAsset\<lparr>update_a := None\<rparr>)
                          (assetSet s1)\<rparr>,
                     None)
                  else (s1, None)))"

text \<open>\<^verbatim>\<open>Session.cacheAssetUpdate\<close>.\<close>

definition cacheAssetUpdate :: "asset_update_payload message \<Rightarrow> Session \<Rightarrow> Session" where
  "cacheAssetUpdate upd s =
     (let assetId = key_of (map_of (asset (payload upd)) ''id'');
          syncAsset = (case map_of (assetSet s) assetId of
                         Some a \<Rightarrow> a
                       | None \<Rightarrow> \<lparr>id_a = assetId, duration = None, creatorMessageId = None,
                                   update_a = None\<rparr>);
          s1 = s\<lparr>assetSet := AList.update assetId syncAsset (assetSet s)\<rparr>;
          creatorId = key (creatorMessageId syncAsset);
          buffer = (case update_a syncAsset of
                      Some u \<Rightarrow>
                        s1\<lparr>assetSet := AList.update assetId
                             (syncAsset\<lparr>update_a := Some (u\<lparr>payload := (payload u)\<lparr>asset :=
                                mergeObject (asset (payload u)) (asset (payload upd))\<rparr>\<rparr>)\<rparr>)
                             (assetSet s1)\<rparr>
                    | None \<Rightarrow>
                        s1\<lparr>assetSet := AList.update assetId (syncAsset\<lparr>update_a := Some upd\<rparr>)
                             (assetSet s1)\<rparr>)
      in case map_of (assetCreatorSet s1) creatorId of
           None \<Rightarrow> buffer
         | Some c \<Rightarrow>
             if ptype (payload c) = ''create-asset'' then
               s1\<lparr>assetCreatorSet := AList.update creatorId
                    (c\<lparr>payload := (payload c)\<lparr>definition_a :=
                         Some (merge_definition (definition_a (payload c))
                                 (asset (payload upd)))\<rparr>\<rparr>)
                    (assetCreatorSet s1)\<rparr>
             else buffer)"

text \<open>
  \<^verbatim>\<open>Session.cacheAssetUnload\<close>: the body of the loop over the creators of the
  container, and the loop. \<^verbatim>\<open>a.creatorMessageId === creator.id\<close> compares two values
  that may both be \<^verbatim>\<open>undefined\<close>.
\<close>

definition unloadCreator :: "AssetCreationMessage \<Rightarrow> Session \<Rightarrow> Session" where
  "unloadCreator creator s =
     (let s1 = s\<lparr>assetCreatorSet := AList.delete (key (id_m creator)) (assetCreatorSet s)\<rparr>;
          assets = filter (\<lambda>a. creatorMessageId a = id_m creator) (map snd (assetSet s1))
      in fold (\<lambda>a s'. s'\<lparr>assetSet := AList.delete (id_a a) (assetSet s')\<rparr>) assets s1)"

definition cacheAssetUnload :: "string \<Rightarrow> Session \<Rightarrow> Session" where
  "cacheAssetUnload cid s =
     (let creators = filter (\<lambda>c. containerId (payload c) = cid) (map snd (assetCreatorSet s))
      in fold unloadCreator creators s)"

text \<open>
  The two sets are objects (each key once) keyed by what they hold:
  \<^verbatim>\<open>cacheAssetCreationRequest\<close> stores a message under its id (a message without
  one under \<^verbatim>\<open>"undefined"\<close>), \<^verbatim>\<open>cacheAssetCreation\<close> and \<^verbatim>\<open>cacheAssetUpdate\<close>
  store an asset under its id.
\<close>

definition assets_keyed :: "Session \<Rightarrow> bool" where
  "assets_keyed s =
     (distinct (map fst (assetCreatorSet s)) \<and>
      list_all (\<lambda>(k, c). key (id_m c) = k) (assetCreatorSet s) \<and>
      distinct (map fst (assetSet s)) \<and>
      list_all (\<lambda>(k, a). id_a a = k) (assetSet s))"

section \<open>Clients of a session\<close>

text \<open>
  \<^verbatim>\<open>Session.clients\<close>: the clients sorted by \<^verbatim>\<open>order\<close>. \<^verbatim>\<open>Array.prototype.sort\<close> is
  stable, as \<open>sort_key\<close> is.
\<close>

definition clients :: "Session \<Rightarrow> Client list" where
  "clients s = sort_key order_c (map snd (clientSet s))"

text \<open>\<^verbatim>\<open>Array.prototype.findIndex\<close>: \<open>- 1\<close> when no element satisfies the predicate.\<close>

fun findIndex :: "('a \<Rightarrow> bool) \<Rightarrow> 'a list \<Rightarrow> int" where
  "findIndex P [] = - 1"
| "findIndex P (x # xs) =
     (if P x then 0 else (let i = findIndex P xs in if i < 0 then - 1 else i + 1))"

text \<open>
  The getter \<^verbatim>\<open>Client.authoritative\<close>: the client is the first of its session's
  clients in the order of \<^verbatim>\<open>order\<close>. Reading \<^verbatim>\<open>this.session.clients\<close> throws when the
  back-reference is not set.
\<close>

definition authoritative :: "Session \<Rightarrow> Client \<Rightarrow> error + bool" where
  "authoritative s c =
     (if session_c c
      then Inr (0 = findIndex (\<lambda>client. id_c client = id_c c) (sort_key order_c (clients s)))
      else Inl TypeError)"

text \<open>\<^verbatim>\<open>Array.prototype.find\<close> with a predicate that may throw.\<close>

fun find_first :: "('a \<Rightarrow> error + bool) \<Rightarrow> 'a list \<Rightarrow> error + 'a option" where
  "find_first P [] = Inr None"
| "find_first P (x # xs) =
     (case P x of
        Inl e \<Rightarrow> Inl e
      | Inr b \<Rightarrow> if b then Inr (Some x) else find_first P xs)"

text \<open>The getter \<^verbatim>\<open>Session.authoritativeClient\<close>.\<close>

definition authoritativeClient :: "Session \<Rightarrow> error + Client option" where
  "authoritativeClient s = find_first (authoritative s) (clients s)"

text \<open>
  Modelled from the spec: \<^verbatim>\<open>Session.leave\<close> calls \<^verbatim>\<open>Client.isJoined\<close> and
  \<^verbatim>\<open>Session.setAuthoritativeClient\<close> calls \<^verbatim>\<open>Client.setAuthoritative\<close>; the class
  \<^verbatim>\<open>Client\<close> of the sources defines neither. \<open>isJoined\<close> is the specification's
  "phase at least Execution", the test that \<^verbatim>\<open>Client.joinedOrLeft\<close> makes on the
  protocol. \<open>setAuthoritative\<close> stores the value in a field of its own (the
  specification lists \<^verbatim>\<open>authoritative\<close> among a client's attributes); the getter above,
  which is the one the sources define, does not read that field.
\<close>

definition isJoined :: "Client \<Rightarrow> bool" where
  "isJoined c = (protocol_c c = Some ClientExecution)"

definition setAuthoritative :: "bool \<Rightarrow> Client \<Rightarrow> Client" where
  "setAuthoritative v c = c\<lparr>authoritativeFlag := v\<rparr>"

text \<open>
  \<^verbatim>\<open>Session.sendToApp\<close> and the session's \<^verbatim>\<open>protocol.sendPayload\<close>: the message is
  handed to the protocol the session runs; there is none before \<^verbatim>\<open>connect\<close>.
\<close>

definition sendToApp :: "payload message \<Rightarrow> Session \<Rightarrow> error + Session" where
  "sendToApp m s =
     (case protocol_s s of
        None \<Rightarrow> Inl TypeError
      | Some p \<Rightarrow> Inr (s\<lparr>toApp := toApp s @ [m]\<rparr>))"

definition sendPayload :: "payload \<Rightarrow> Session \<Rightarrow> error + Session" where
  "sendPayload pl s = sendToApp \<lparr>id_m = None, replyToId = None, payload = pl\<rparr> s"

text \<open>
  \<^verbatim>\<open>Session.setAuthoritativeClient\<close>. A missing client is logged, and then
  \<^verbatim>\<open>newAuthority.setAuthoritative\<close> throws. The listeners that forward the network
  statistics of the authoritative client are not part of the state modelled here.
\<close>

definition setAuthoritativeClient :: "string \<Rightarrow> Session \<Rightarrow> error + Session" where
  "setAuthoritativeClient clientId s =
     (case authoritativeClient s of
        Inl e \<Rightarrow> Inl e
      | Inr oldAuthority \<Rightarrow>
          (case map_of (clientSet s) clientId of
             None \<Rightarrow> Inl TypeError
           | Some newAuthority \<Rightarrow>
               Inr (s\<lparr>clientSet :=
                      map (\<lambda>(k, c). (k, setAuthoritative (k = clientId) c)) (clientSet s)\<rparr>)))"

text \<open>
  \<^verbatim>\<open>Session.leave\<close>. The body is wrapped in \<^verbatim>\<open>try { } catch { }\<close>: an exception ends
  it and is dropped, with the changes made so far kept.
\<close>

definition shutdownIfEmpty :: "Session \<Rightarrow> Session" where
  "shutdownIfEmpty s = (if clients s = [] then s\<lparr>connClosed := True\<rparr> else s)"

definition leave :: "string \<Rightarrow> Session \<Rightarrow> Session" where
  "leave clientId s =
     (let client = map_of (clientSet s) clientId;
          s1 = s\<lparr>clientSet := AList.delete clientId (clientSet s)\<rparr>
      in case client of
           None \<Rightarrow> shutdownIfEmpty s1
         | Some c \<Rightarrow>
             (case (case userId c of
                      None \<Rightarrow> Inr s1
                    | Some u \<Rightarrow>
                        if u = [] then Inr s1
                        else sendPayload \<lparr>ptype = ''user-left'',
                                          others = [(''userId'', JStr u)]\<rparr> s1) of
                Inl e \<Rightarrow> s1
              | Inr s2 \<Rightarrow>
                  (case authoritative s2 c of
                     Inl e \<Rightarrow> s2
                   | Inr isAuthority \<Rightarrow>
                       if isAuthority then
                         (case find isJoined (clients s2) of
                            None \<Rightarrow> shutdownIfEmpty s2
                          | Some nextClient \<Rightarrow>
                              (case setAuthoritativeClient (id_c nextClient) s2 of
                                 Inl e \<Rightarrow> s2
                               | Inr s3 \<Rightarrow> shutdownIfEmpty s3))
                       else shutdownIfEmpty s2)))"

text \<open>
  \<^verbatim>\<open>Session.join\<close> awaits \<^verbatim>\<open>client.join(this)\<close>. \<open>join_begin\<close> is the part before the
  wait: the client is stored under its id, and \<^verbatim>\<open>Client.join\<close> sets the
  back-reference and starts the handshake. \<open>join_end\<close> is the part after it; an
  exception there makes the session call \<^verbatim>\<open>leave\<close>.
\<close>

definition join_begin :: "Client \<Rightarrow> Session \<Rightarrow> Session" where
  "join_begin client s =
     s\<lparr>clientSet := AList.update (id_c client)
          (client\<lparr>session_c := True, protocol_c := Some ClientHandshake\<rparr>) (clientSet s)\<rparr>"

definition join_end :: "string \<Rightarrow> Session \<Rightarrow> Session" where
  "join_end clientId s =
     (case authoritativeClient s of
        Inl e \<Rightarrow> leave clientId s
      | Inr (Some a) \<Rightarrow> s
      | Inr None \<Rightarrow>
          (case setAuthoritativeClient clientId s of
             Inl e \<Rightarrow> leave clientId s
           | Inr s' \<Rightarrow> s'))"

text \<open>
  The handlers that \<^verbatim>\<open>Client.join\<close> installs replace the client's protocol when a
  phase completes: handshake, then sync, then execution.
\<close>

fun next_protocol :: "ClientProtocol option \<Rightarrow> ClientProtocol option" where
  "next_protocol (Some ClientHandshake) = Some ClientSync"
| "next_protocol (Some ClientSync) = Some ClientExecution"
| "next_protocol p = p"

definition phase_complete :: "string \<Rightarrow> Session \<Rightarrow> Session" where
  "phase_complete clientId s =
     s\<lparr>clientSet := AList.map_entry clientId
          (\<lambda>c. c\<lparr>protocol_c := next_protocol (protocol_c c)\<rparr>) (clientSet s)\<rparr>"

text \<open>
  \<^verbatim>\<open>Client.leave\<close> of the client stored under an id: it drops the protocol and the
  back-reference and emits \<^verbatim>\<open>close\<close>, which the session answers with \<^verbatim>\<open>leave\<close>.
\<close>

definition client_leave :: "string \<Rightarrow> Session \<Rightarrow> Session" where
  "client_leave clientId s =
     leave clientId
       (s\<lparr>clientSet := AList.map_entry clientId
            (\<lambda>c. c\<lparr>protocol_c := None, session_c := False\<rparr>) (clientSet s)\<rparr>)"

text \<open>
  The states of a session: it is constructed without clients, and changes by the
  operations above and by the operations on the sync cache. (The hooks of the rules
  table are not part of the sources and make no step here.)
\<close>

inductive reachable :: "Session \<Rightarrow> bool" where
  created: "clientSet s = [] \<Longrightarrow> reachable s"
| joining: "reachable s \<Longrightarrow> reachable (join_begin client s)"
| joined: "reachable s \<Longrightarrow> reachable (join_end clientId s)"
| phase: "reachable s \<Longrightarrow> reachable (phase_complete clientId s)"
| left: "reachable s \<Longrightarrow> reachable (leave clientId s)"
| closed: "reachable s \<Longrightarrow> reachable (client_leave clientId s)"
| init_actor: "reachable s \<Longrightarrow> reachable (cacheInitializeActorMessage im s)"
| update_actor: "reachable s \<Longrightarrow> reachable (fst (cacheActorUpdateMessage um s))"
| asset_request: "reachable s \<Longrightarrow> reachable (cacheAssetCreationRequest cm s)"
| asset_created: "reachable s \<Longrightarrow> reachable (fst (cacheAssetCreation assetId creatorId dur s))"
| asset_updated: "reachable s \<Longrightarrow> reachable (cacheAssetUpdate am s)"
| asset_unloaded: "reachable s \<Longrightarrow> reachable (cacheAssetUnload cid s)"
| sent: "reachable s \<Longrightarrow> sendToApp m s = Inr s' \<Longrightarrow> reachable s'"

text \<open>The client set is keyed by the clients' ids.\<close>

definition clients_keyed :: "Session \<Rightarrow> bool" where
  "clients_keyed s =
     (distinct (map fst (clientSet s)) \<and> list_all (\<lambda>(k, c). id_c c = k) (clientSet s))"

subsection \<open>Messages from a client\<close>

text \<open>
  The table \<^verbatim>\<open>Rules\<close> and \<^verbatim>\<open>MissingRule\<close> are not part of the sources: they are
  parameters. A hook gets the session and returns the message to pass on, or nothing,
  and may change the session.
\<close>

record Rule =
  beforeReceiveFromApp ::
    "(Session \<Rightarrow> payload message \<Rightarrow> payload message option \<times> Session) option"
  beforeReceiveFromClient ::
    "(Session \<Rightarrow> Client \<Rightarrow> payload message \<Rightarrow> payload message option \<times> Session) option"

text \<open>\<^verbatim>\<open>Session.preprocessFromClient\<close>.\<close>

definition preprocessFromClient ::
  "(string \<Rightarrow> Rule option) \<Rightarrow> Rule \<Rightarrow> Client \<Rightarrow> payload message \<Rightarrow> Session
     \<Rightarrow> payload message option \<times> Session" where
  "preprocessFromClient Rules MissingRule client m s =
     (if map_of (clientSet s) (id_c client) = None then (None, s)
      else if ptype (payload m) \<noteq> [] then
        (let rule = (case Rules (ptype (payload m)) of None \<Rightarrow> MissingRule | Some r \<Rightarrow> r)
         in case beforeReceiveFromClient rule of
              None \<Rightarrow> (Some m, s)
            | Some hook \<Rightarrow> hook s client m)
      else (Some m, s))"

text \<open>\<^verbatim>\<open>Session.recvFromClient\<close>.\<close>

definition recvFromClient ::
  "(string \<Rightarrow> Rule option) \<Rightarrow> Rule \<Rightarrow> Client \<Rightarrow> payload message \<Rightarrow> Session
     \<Rightarrow> error + Session" where
  "recvFromClient Rules MissingRule client m s =
     (case preprocessFromClient Rules MissingRule client m s of
        (None, s') \<Rightarrow> Inr s'
      | (Some m', s') \<Rightarrow> sendToApp m' s')"

section \<open>The protocol base class\<close>

text \<open>
  The type \<^verbatim>\<open>ExportedPromise\<close> is not part of the sources: it is a pair of
  callbacks, \<^verbatim>\<open>resolve\<close> and \<^verbatim>\<open>reject\<close> (the \<^verbatim>\<open>onResolve\<close> and \<^verbatim>\<open>onReject\<close> of
  the specification's outstanding reply). The model gives each promise a number and
  records the calls of the callbacks; \<open>reject_defined\<close> is the test
  \<^verbatim>\<open>promise.reject\<close> that the source makes before it calls the callback.
\<close>

record ExportedPromise =
  promiseId :: nat
  reject_defined :: bool

datatype settlement =
    Resolved nat "payload message"
  | Rejected nat "string option"

text \<open>An entry of \<^verbatim>\<open>conn.promises\<close>: the promise and the handle of its timer.\<close>

record QueuedPromise =
  promise :: ExportedPromise
  timeout :: "nat option"

text \<open>
  A pending timer set by \<^verbatim>\<open>setReplyTimeout\<close>: the delay, and the message its callback
  has captured.
\<close>

record ReplyTimer =
  delay :: int
  timer_message :: "payload message"

text \<open>
  The type \<^verbatim>\<open>Middleware\<close> is not part of the sources; a hook returns the message to go
  on with, or nothing.
\<close>

record Middleware =
  beforeSend :: "(payload message \<Rightarrow> ExportedPromise option \<Rightarrow> payload message option) option"
  beforeRecv :: "(payload message \<Rightarrow> payload message option) option"

text \<open>
  What a \<^verbatim>\<open>Protocol\<close> object acts on: itself (\<open>name\<close>, \<open>middlewares\<close>, whether it
  listens to its connection), its connection (\<open>promises\<close>, the messages given to
  \<^verbatim>\<open>conn.send\<close>, whether \<^verbatim>\<open>conn.close()\<close> was called), the pending timers, and the
  calls made so far of the callbacks of reply promises, oldest first.
\<close>

record Protocol =
  name :: string
  middlewares :: "Middleware list"
  listening :: bool
  promises :: "(string \<times> QueuedPromise) list"
  sent_c :: "payload message list"
  closed_c :: bool
  timers :: "(nat \<times> ReplyTimer) list"
  nextTimer :: nat
  settled :: "settlement list"

text \<open>
  \<^verbatim>\<open>Protocol.startListening\<close> and \<^verbatim>\<open>Protocol.stopListening\<close>: the handlers \<^verbatim>\<open>onReceive\<close>
  and \<^verbatim>\<open>onClose\<close> are attached to the connection's events, or detached from them.
\<close>

definition startListening :: "Protocol \<Rightarrow> Protocol" where
  "startListening st = st\<lparr>listening := True\<rparr>"

definition stopListening :: "Protocol \<Rightarrow> Protocol" where
  "stopListening st = st\<lparr>listening := False\<rparr>"

text \<open>\<^verbatim>\<open>clearTimeout\<close>; the handle may be \<^verbatim>\<open>undefined\<close>.\<close>

definition clearTimeout :: "nat option \<Rightarrow> Protocol \<Rightarrow> Protocol" where
  "clearTimeout h st =
     (case h of None \<Rightarrow> st | Some n \<Rightarrow> st\<lparr>timers := AList.delete n (timers st)\<rparr>)"

text \<open>\<^verbatim>\<open>Protocol.rejectPromiseForMessage\<close>.\<close>

definition rejectPromiseForMessage :: "string \<Rightarrow> string option \<Rightarrow> Protocol \<Rightarrow> Protocol" where
  "rejectPromiseForMessage messageId reason st =
     (case map_of (promises st) messageId of
        None \<Rightarrow> st
      | Some queuedPromise \<Rightarrow>
          if reject_defined (promise queuedPromise) then
            (let st1 = clearTimeout (timeout queuedPromise) st;
                 st2 = st1\<lparr>promises := AList.delete messageId (promises st1)\<rparr>
             in st2\<lparr>settled := settled st2 @
                    [Rejected (promiseId (promise queuedPromise)) reason]\<rparr>)
          else st)"

text \<open>\<^verbatim>\<open>Protocol.onClose\<close>: the keys are listed first, then each is rejected.\<close>

definition onClose :: "Protocol \<Rightarrow> Protocol" where
  "onClose st =
     fold (\<lambda>k. rejectPromiseForMessage k (Some ''Connection closed.''))
       (map fst (promises st)) st"

text \<open>
  Modelled from the spec: the class of the connection is not part of the sources.
  \<^verbatim>\<open>conn.close()\<close> closes the transport, and the transport's \<^verbatim>\<open>close\<close> event reaches
  the protocol that listens to it (section 4.1 of the specification).
\<close>

definition conn_close :: "Protocol \<Rightarrow> Protocol" where
  "conn_close st =
     (let st1 = st\<lparr>closed_c := True\<rparr> in if listening st1 then onClose st1 else st1)"

text \<open>The loop of \<^verbatim>\<open>sendMessage\<close> over the middlewares.\<close>

fun run_beforeSend ::
  "Middleware list \<Rightarrow> payload message \<Rightarrow> ExportedPromise option \<Rightarrow> payload message option" where
  "run_beforeSend [] m p = Some m"
| "run_beforeSend (mw # mws) m p =
     (case beforeSend mw of
        None \<Rightarrow> run_beforeSend mws m p
      | Some hook \<Rightarrow>
          (case hook m p of
             None \<Rightarrow> None
           | Some m' \<Rightarrow> run_beforeSend mws m' p))"

text \<open>
  \<^verbatim>\<open>Protocol.sendMessage\<close>. \<open>uuid\<close> is the value \<^verbatim>\<open>UUID()\<close> returns when it is
  called; \<open>timeoutSeconds\<close> is \<open>None\<close> when the argument is omitted. The timer is
  set only when a promise is given, since \<^verbatim>\<open>setReplyTimeout\<close> is called only there.
\<close>

definition sendMessage ::
  "string \<Rightarrow> payload message \<Rightarrow> ExportedPromise option \<Rightarrow> int option \<Rightarrow> Protocol \<Rightarrow> Protocol" where
  "sendMessage uuid m p timeoutSeconds st =
     (let m0 = m\<lparr>id_m := (case id_m m of
                             None \<Rightarrow> Some uuid
                           | Some i \<Rightarrow> if i = [] then Some uuid else Some i)\<rparr>
      in case run_beforeSend (middlewares st) m0 p of
           None \<Rightarrow>
             (case p of
                None \<Rightarrow> st
              | Some pr \<Rightarrow>
                  if reject_defined pr
                  then st\<lparr>settled := settled st @ [Rejected (promiseId pr) None]\<rparr>
                  else st)
         | Some m1 \<Rightarrow>
             (let st1 =
                (case p of
                   None \<Rightarrow> st
                 | Some pr \<Rightarrow>
                     (case timeoutSeconds of
                        None \<Rightarrow>
                          st\<lparr>promises := AList.update (key (id_m m1))
                               \<lparr>promise = pr, timeout = None\<rparr> (promises st)\<rparr>
                      | Some t \<Rightarrow>
                          if 0 < t then
                            st\<lparr>timers := AList.update (nextTimer st)
                                   \<lparr>delay = t * 1000, timer_message = m1\<rparr> (timers st),
                               nextTimer := Suc (nextTimer st),
                               promises := AList.update (key (id_m m1))
                                   \<lparr>promise = pr, timeout = Some (nextTimer st)\<rparr> (promises st)\<rparr>
                          else
                            st\<lparr>promises := AList.update (key (id_m m1))
                                 \<lparr>promise = pr, timeout = None\<rparr> (promises st)\<rparr>))
              in st1\<lparr>sent_c := sent_c st1 @ [m1]\<rparr>))"

text \<open>The reason that the callback of a reply timer gives.\<close>

definition timeout_reason :: "string \<Rightarrow> payload message \<Rightarrow> string" where
  "timeout_reason nm m =
     nm @ '' timed out awaiting response for '' @ ptype (payload m) @ '', id:''
        @ key (id_m m) @ ''.''"

text \<open>
  The callback of the timer with handle \<open>h\<close>, run by the event loop when the timer
  fires; a timer that was cleared does not fire.
\<close>

definition fire_timeout :: "nat \<Rightarrow> Protocol \<Rightarrow> Protocol" where
  "fire_timeout h st =
     (case map_of (timers st) h of
        None \<Rightarrow> st
      | Some t \<Rightarrow>
          (let st1 = st\<lparr>timers := AList.delete h (timers st)\<rparr>;
               reason = timeout_reason (name st1) (timer_message t);
               st2 = rejectPromiseForMessage (key (id_m (timer_message t))) (Some reason) st1
           in conn_close st2))"

text \<open>\<^verbatim>\<open>Protocol.handleReplyMessage\<close>; a reply nobody waits for is logged.\<close>

definition handleReplyMessage :: "payload message \<Rightarrow> Protocol \<Rightarrow> Protocol" where
  "handleReplyMessage m st =
     (case map_of (promises st) (key (replyToId m)) of
        None \<Rightarrow> st
      | Some queuedPromise \<Rightarrow>
          (let st1 = st\<lparr>promises := AList.delete (key (replyToId m)) (promises st)\<rparr>;
               st2 = clearTimeout (timeout queuedPromise) st1
           in st2\<lparr>settled := settled st2 @ [Resolved (promiseId (promise queuedPromise)) m]\<rparr>))"

section \<open>Example data\<close>

text \<open>The scenarios of section 8 of the specification, as concrete sessions.\<close>

definition emptySession :: Session where
  "emptySession =
     \<lparr>clientSet = [], actorSet = [], assetSet = [], assetCreatorSet = [], userSet = [],
      peerAuthoritative = True, protocol_s = Some ''SessionExecution'', toApp = [],
      connClosed = False\<rparr>"

definition actorMessage :: "string \<Rightarrow> string \<Rightarrow> obj \<Rightarrow> InitializeActorMessage" where
  "actorMessage i t a =
     \<lparr>id_m = Some i, replyToId = None, payload = \<lparr>ptype = t, others = [], actor = a\<rparr>\<rparr>"

definition reserveA1 :: InitializeActorMessage where
  "reserveA1 = actorMessage ''m1'' ''x-reserve-actor''
     [(''id'', JStr ''A1''), (''exclusiveToUser'', JStr ''U1'')]"

definition createA1 :: InitializeActorMessage where
  "createA1 = actorMessage ''m2'' ''create-empty'' [(''id'', JStr ''A1''), (''name'', JStr ''box'')]"

definition createA2 :: InitializeActorMessage where
  "createA2 = actorMessage ''m3'' ''create-empty''
     [(''id'', JStr ''A2''),
      (''transform'', JObj [(''local'', JObj [(''position'', JNum 1), (''rotation'', JNum 2)])])]"

definition updateA2 :: "actor_payload message" where
  "updateA2 = actorMessage ''m4'' ''actor-update''
     [(''id'', JStr ''A2''),
      (''transform'', JObj [(''app'', JObj [(''position'', JNum 3), (''rotation'', JNum 4)])])]"

definition syncA2 :: SyncActor where
  "syncA2 = \<lparr>actorId = Some (JStr ''A2''), initialization = \<lparr>message = createA2\<rparr>,
             createdAnimations = None, activeMediaInstances = None,
             activeInterpolations = None, behavior = None, grabbedBy = None,
             exclusiveToUser = None\<rparr>"

definition createAssetM1 :: AssetCreationMessage where
  "createAssetM1 =
     \<lparr>id_m = Some ''M1'', replyToId = None,
      payload = \<lparr>ptype = ''create-asset'', others = [], containerId = ''CT1'',
                 definition_a = Some [(''id'', JStr ''X''), (''name'', JStr ''old'')]\<rparr>\<rparr>"

definition updateX :: "asset_update_payload message" where
  "updateX =
     \<lparr>id_m = Some ''M5'', replyToId = None,
      payload = \<lparr>ptype = ''asset-update'', others = [],
                 asset = [(''id'', JStr ''X''), (''name'', JStr ''new'')]\<rparr>\<rparr>"

definition scenario5 :: Session where
  "scenario5 = cacheAssetUpdate updateX (cacheAssetCreationRequest createAssetM1 emptySession)"

definition loadAssets :: "string \<Rightarrow> string \<Rightarrow> AssetCreationMessage" where
  "loadAssets i cid =
     \<lparr>id_m = Some i, replyToId = None,
      payload = \<lparr>ptype = ''load-assets'', others = [], containerId = cid, definition_a = None\<rparr>\<rparr>"

definition scenario6 :: Session where
  "scenario6 =
     fst (cacheAssetCreation ''D'' ''M3'' None
       (fst (cacheAssetCreation ''C'' ''M2'' None
         (fst (cacheAssetCreation ''B'' ''M1'' None
           (fst (cacheAssetCreation ''A'' ''M1'' None
             (cacheAssetCreationRequest (loadAssets ''M3'' ''CT2'')
               (cacheAssetCreationRequest (loadAssets ''M2'' ''CT1'')
                 (cacheAssetCreationRequest (loadAssets ''M1'' ''CT1'') emptySession))))))))))"

definition createdAsset :: "string \<Rightarrow> string \<Rightarrow> SyncAsset" where
  "createdAsset i c = \<lparr>id_a = i, duration = None, creatorMessageId = Some c, update_a = None\<rparr>"

definition newClient :: "string \<Rightarrow> nat \<Rightarrow> Client" where
  "newClient i n =
     \<lparr>id_c = i, order_c = n, userId = None, protocol_c = None, session_c = False,
      authoritativeFlag = False\<rparr>"

definition memberClient :: "string \<Rightarrow> nat \<Rightarrow> ClientProtocol \<Rightarrow> Client" where
  "memberClient i n p =
     \<lparr>id_c = i, order_c = n, userId = None, protocol_c = Some p, session_c = True,
      authoritativeFlag = False\<rparr>"

definition scenario4 :: Session where
  "scenario4 =
     phase_complete ''C3'' (phase_complete ''C3''
       (phase_complete ''C1'' (phase_complete ''C1''
         (join_begin (newClient ''C3'' 3)
           (join_begin (newClient ''C2'' 2)
             (join_begin (newClient ''C1'' 1) emptySession))))))"

definition noRule :: Rule where
  "noRule = \<lparr>beforeReceiveFromApp = None, beforeReceiveFromClient = None\<rparr>"

definition pingMessage :: "payload message" where
  "pingMessage = \<lparr>id_m = Some ''m9'', replyToId = None,
                   payload = \<lparr>ptype = ''heartbeat'', others = []\<rparr>\<rparr>"

definition clientHandshake :: Protocol where
  "clientHandshake =
     \<lparr>name = ''ClientHandshake'', middlewares = [], listening = True, promises = [],
      sent_c = [], closed_c = False, timers = [], nextTimer = 0, settled = []\<rparr>"

definition handshakeMessage :: "payload message" where
  "handshakeMessage =
     \<lparr>id_m = None, replyToId = None, payload = \<lparr>ptype = ''handshake'', others = []\<rparr>\<rparr>"

definition heartbeatMessage :: "payload message" where
  "heartbeatMessage =
     \<lparr>id_m = Some ''hb'', replyToId = None, payload = \<lparr>ptype = ''heartbeat'', others = []\<rparr>\<rparr>"

definition awaitingHandshake :: Protocol where
  "awaitingHandshake =
     sendMessage ''u1'' handshakeMessage (Some \<lparr>promiseId = 1, reject_defined = True\<rparr>) (Some 5)
       clientHandshake"

definition awaitingTwo :: Protocol where
  "awaitingTwo =
     sendMessage ''u2'' heartbeatMessage (Some \<lparr>promiseId = 2, reject_defined = True\<rparr>) None
       awaitingHandshake"

section \<open>Properties of the deep merge\<close>

lemma mergeObject_overlay:
  "mergeObject t s = map (overlay s) t @ filter (\<lambda>(k, sv). map_of t k = None) s"
  by (subst mergeObject.simps) (simp add: overlay_def deepmerge_def cong: json.case_cong option.case_cong)

lemma fst_overlay [simp]: "fst (overlay s e) = fst e"
  by (cases e) (simp add: overlay_def)

lemma keys_mergeObject:
  "fst ` set (mergeObject t s) = fst ` set t \<union> fst ` set s"
proof -
  have a: "fst ` set (map (overlay s) t) = fst ` set t"
    by (simp add: image_image)
  have b: "fst ` set (filter (\<lambda>(k, sv). map_of t k = None) s) = fst ` set s - fst ` set t"
    by (force simp: map_of_eq_None_iff)
  have "fst ` set (mergeObject t s)
      = fst ` set (map (overlay s) t) \<union> fst ` set (filter (\<lambda>(k, sv). map_of t k = None) s)"
    unfolding mergeObject_overlay by (simp only: set_append image_Un)
  then show ?thesis unfolding a b by blast
qed

lemma wf_obj_distinct: "wf_obj s \<Longrightarrow> distinct (map fst s)"
  by (subst (asm) wf_obj.simps) simp

lemma wf_obj_entry: "wf_obj s \<Longrightarrow> (k, JObj ob) \<in> set s \<Longrightarrow> wf_obj ob"
  by (subst (asm) wf_obj.simps) (auto simp: list_all_iff)

lemma wf_obj_lookup: "wf_obj s \<Longrightarrow> map_of s k = Some (JObj ob) \<Longrightarrow> wf_obj ob"
  by (meson map_of_SomeD wf_obj_entry)

lemma mergeObject_self: "wf_obj s \<Longrightarrow> mergeObject s s = s"
proof (induction s rule: wf_obj.induct)
  case (1 kvs)
  have d: "distinct (map fst kvs)" using "1.prems" by (rule wf_obj_distinct)
  have "map (overlay kvs) kvs = kvs"
  proof (rule map_idI)
    fix e assume e: "e \<in> set kvs"
    obtain k v where kv: "e = (k, v)" by (cases e)
    have look: "map_of kvs k = Some v" using d e kv by simp
    show "overlay kvs e = e"
    proof (cases v)
      case (JObj ob)
      have "wf_obj ob" using "1.prems" e kv JObj wf_obj_entry by blast
      then have "mergeObject ob ob = ob" using "1.IH" e kv JObj by blast
      then show ?thesis using look kv JObj by (simp add: overlay_def deepmerge_def)
    qed (use look kv in \<open>simp_all add: overlay_def deepmerge_def\<close>)
  qed
  moreover have "filter (\<lambda>(k, sv). map_of kvs k = None) kvs = []"
  proof -
    have "\<And>k v. (k, v) \<in> set kvs \<Longrightarrow> map_of kvs k \<noteq> None"
      by (metis map_of_eq_None_iff fst_conv image_eqI)
    then show ?thesis by (auto simp: filter_empty_conv)
  qed
  ultimately show ?case unfolding mergeObject_overlay[of kvs kvs] by simp
qed

lemma deepmerge_self: "(\<And>ob. v = JObj ob \<Longrightarrow> wf_obj ob) \<Longrightarrow> deepmerge v v = v"
proof (cases v)
  case (JObj ob)
  assume "\<And>ob. v = JObj ob \<Longrightarrow> wf_obj ob"
  then have "wf_obj ob" using JObj by blast
  then show ?thesis using JObj by (simp add: deepmerge_def mergeObject_self)
qed (simp_all add: deepmerge_def)

lemma mergeObject_idem_pointwise:
  assumes "\<And>e. e \<in> set (mergeObject t s) \<Longrightarrow> overlay s e = e"
  shows "mergeObject (mergeObject t s) s = mergeObject t s"
proof -
  let ?M = "mergeObject t s"
  have "map (overlay s) ?M = ?M"
    by (rule map_idI) (rule assms)
  moreover have "filter (\<lambda>(k, sv). map_of ?M k = None) s = []"
  proof -
    have "\<And>k v. (k, v) \<in> set s \<Longrightarrow> map_of ?M k \<noteq> None"
    proof -
      fix k v assume "(k, v) \<in> set s"
      then have "k \<in> fst ` set s" by force
      then have "k \<in> fst ` set ?M" unfolding keys_mergeObject by blast
      then show "map_of ?M k \<noteq> None" by (simp add: map_of_eq_None_iff)
    qed
    then show ?thesis by (auto simp: filter_empty_conv)
  qed
  ultimately show ?thesis
    unfolding mergeObject_overlay[of ?M s] by simp
qed

lemma overlay_fixed:
  "wf_obj s \<Longrightarrow> e \<in> set (mergeObject t s) \<Longrightarrow> overlay s e = e"
proof (induction t s arbitrary: e rule: mergeObject.induct)
  case (1 target source)
  have d: "distinct (map fst source)" using "1.prems"(1) by (rule wf_obj_distinct)
  from "1.prems"(2) consider
      (old) k tv where "(k, tv) \<in> set target" "e = overlay source (k, tv)"
    | (new) k sv where "(k, sv) \<in> set source" "e = (k, sv)"
    unfolding mergeObject_overlay by auto
  then show ?case
  proof cases
    case old
    show ?thesis
    proof (cases "map_of source k")
      case None
      then show ?thesis using old by (simp add: overlay_def)
    next
      case (Some sv)
      have wfsv: "\<And>ob. sv = JObj ob \<Longrightarrow> wf_obj ob"
        using Some "1.prems"(1) wf_obj_lookup by blast
      have "deepmerge (deepmerge tv sv) sv = deepmerge tv sv"
      proof (cases "\<exists>t' s'. tv = JObj t' \<and> sv = JObj s'")
        case True
        then obtain t' s' where ts: "tv = JObj t'" "sv = JObj s'" by blast
        have "wf_obj s'" using wfsv ts by blast
        then have "\<And>e. e \<in> set (mergeObject t' s') \<Longrightarrow> overlay s' e = e"
          using "1.IH"[OF old(1) refl Some ts(1) ts(2)] by blast
        then have "mergeObject (mergeObject t' s') s' = mergeObject t' s'"
          by (rule mergeObject_idem_pointwise)
        then show ?thesis using ts by (simp add: deepmerge_def)
      next
        case False
        then have "deepmerge tv sv = sv"
          by (auto simp: deepmerge_def split: json.splits)
        then show ?thesis using deepmerge_self[OF wfsv] by simp
      qed
      then show ?thesis using old Some by (simp add: overlay_def)
    qed
  next
    case new
    have look: "map_of source k = Some sv" using d new(1) by simp
    have "\<And>ob. sv = JObj ob \<Longrightarrow> wf_obj ob"
      using look "1.prems"(1) wf_obj_lookup by blast
    then have "deepmerge sv sv = sv" by (rule deepmerge_self)
    then show ?thesis using new look by (simp add: overlay_def)
  qed
qed

lemma mergeObject_idem: "wf_obj s \<Longrightarrow> mergeObject (mergeObject t s) s = mergeObject t s"
  by (rule mergeObject_idem_pointwise) (rule overlay_fixed)

lemma mergeObject_Nil [simp]: "mergeObject [] s = s"
  by (simp add: mergeObject_overlay)

lemma deepmerge_obj_form: "\<exists>t'. deepmerge tv (JObj s') = JObj (mergeObject t' s')"
proof (cases tv)
  case (JObj t')
  then show ?thesis by (auto simp: deepmerge_def)
qed (auto simp: deepmerge_def intro: exI[of _ "[]"])

lemma deepmerge_prim:
  assumes "\<And>s'. sv \<noteq> JObj s'"
  shows "deepmerge tv sv = sv"
  using assms by (cases tv; cases sv) (auto simp: deepmerge_def)

text \<open>The value a merge leaves under a key that the update has.\<close>
lemma mergeObject_entry:
  assumes "(k, v) \<in> set (mergeObject t s)" "distinct (map fst s)" "map_of s k = Some sv"
  shows "\<exists>tv. v = deepmerge tv sv"
proof -
  from assms(1) consider
      (old) tv where "(k, tv) \<in> set t" "(k, v) = overlay s (k, tv)"
    | (new) "(k, v) \<in> set s"
    unfolding mergeObject_overlay by (auto simp: overlay_def)
  then show ?thesis
  proof cases
    case old
    then show ?thesis using assms(3) by (auto simp: overlay_def)
  next
    case new
    then have "sv = v" using assms(2,3) by simp
    moreover have "deepmerge JNull sv = sv" by (simp add: deepmerge_def)
    ultimately show ?thesis by metis
  qed
qed

lemma mergeObject_entry_absent:
  assumes "(k, v) \<in> set (mergeObject t s)" "map_of s k = None"
  shows "(k, v) \<in> set t"
proof -
  have "k \<notin> fst ` set s" using assms(2) by (simp add: map_of_eq_None_iff)
  then have "(k, v) \<notin> set s" by force
  then show ?thesis using assms unfolding mergeObject_overlay by (auto simp: overlay_def)
qed

lemma map_entry_keys [simp]: "map fst (AList.map_entry k g xs) = map fst xs"
  by (induction xs) auto

lemma map_entry_map_idem:
  assumes "\<And>e. e \<in> set xs \<Longrightarrow> F e = e"
    and "\<And>e. fst (F e) = fst e"
    and "\<And>v. (k, v) \<in> set xs \<Longrightarrow> g (snd (F (k, g v))) = g v"
  shows "AList.map_entry k g (map F (AList.map_entry k g xs)) = AList.map_entry k g xs"
  using assms
proof (induction xs)
  case Nil
  then show ?case by simp
next
  case (Cons p ps)
  show ?case
  proof (cases "fst p = k")
    case True
    have "map F ps = ps" by (rule map_idI) (simp add: Cons.prems(1))
    moreover have "fst (F (k, g (snd p))) = k" by (simp add: Cons.prems(2))
    moreover have "g (snd (F (k, g (snd p)))) = g (snd p)"
      using Cons.prems(3)[of "snd p"] True by (cases p) auto
    ultimately show ?thesis using True by simp
  next
    case False
    have "F p = p" by (simp add: Cons.prems(1))
    moreover have "AList.map_entry k g (map F (AList.map_entry k g ps)) = AList.map_entry k g ps"
      by (rule Cons.IH) (simp_all add: Cons.prems)
    ultimately show ?thesis using False by simp
  qed
qed

text \<open>Merging the same update into a merge result changed under one key.\<close>
lemma mergeObject_map_entry:
  "mergeObject (AList.map_entry k g (mergeObject t s)) s
     = map (overlay s) (AList.map_entry k g (mergeObject t s))"
proof -
  let ?X = "AList.map_entry k g (mergeObject t s)"
  have "\<And>k' v. (k', v) \<in> set s \<Longrightarrow> map_of ?X k' \<noteq> None"
  proof -
    fix k' v assume "(k', v) \<in> set s"
    then have "k' \<in> fst ` set s" by force
    then have "k' \<in> fst ` set (mergeObject t s)" unfolding keys_mergeObject by blast
    then have "k' \<in> set (map fst (mergeObject t s))" by simp
    then have "k' \<in> set (map fst ?X)" by (simp only: map_entry_keys)
    then have "k' \<in> fst ` set ?X" by (simp only: set_map)
    then show "map_of ?X k' \<noteq> None" by (simp only: map_of_eq_None_iff not_not)
  qed
  then have "filter (\<lambda>(k, sv). map_of ?X k = None) s = []"
    by (auto simp: filter_empty_conv)
  then show ?thesis unfolding mergeObject_overlay[of ?X s] by simp
qed

lemma mergeObject_map_entry_idem:
  assumes "wf_obj s"
    and "\<And>v. (k, v) \<in> set (mergeObject t s) \<Longrightarrow> g (snd (overlay s (k, g v))) = g v"
  shows "AList.map_entry k g (mergeObject (AList.map_entry k g (mergeObject t s)) s)
          = AList.map_entry k g (mergeObject t s)"
  unfolding mergeObject_map_entry
  by (rule map_entry_map_idem) (simp_all add: overlay_fixed[OF assms(1)] assms(2))

lemma delete_drop_keys: "AList.delete k xs = drop_keys {k} xs"
  by (induction xs) (auto simp: drop_keys_def)

lemma drop_keys_drop_keys: "drop_keys A (drop_keys B xs) = drop_keys (A \<union> B) xs"
  by (induction xs) (auto simp: drop_keys_def)

lemma mergeObject_drop_keys_idem:
  assumes "wf_obj s"
  shows "drop_keys K (mergeObject (drop_keys K (mergeObject t s)) s) = drop_keys K (mergeObject t s)"
proof -
  let ?M = "mergeObject t s"
  let ?X = "drop_keys K ?M"
  have fixed: "\<And>e. e \<in> set ?X \<Longrightarrow> overlay s e = e"
    by (auto simp: drop_keys_def intro: overlay_fixed[OF assms])
  have a: "map (overlay s) ?X = ?X" by (rule map_idI) (rule fixed)
  have b: "drop_keys K (filter (\<lambda>(k, sv). map_of ?X k = None) s) = []"
  proof -
    have "\<And>k v. (k, v) \<in> set s \<Longrightarrow> k \<notin> K \<Longrightarrow> map_of ?X k \<noteq> None"
    proof -
      fix k v assume "(k, v) \<in> set s" "k \<notin> K"
      then have "k \<in> fst ` set s" by force
      then have "k \<in> fst ` set ?M" unfolding keys_mergeObject by blast
      then have "k \<in> fst ` set ?X" using \<open>k \<notin> K\<close> by (force simp: drop_keys_def)
      then show "map_of ?X k \<noteq> None" by (simp add: map_of_eq_None_iff)
    qed
    then show ?thesis unfolding drop_keys_def filter_empty_conv by fastforce
  qed
  have "drop_keys K (mergeObject ?X s) = drop_keys K (map (overlay s) ?X) @ drop_keys K (filter (\<lambda>(k, sv). map_of ?X k = None) s)"
    unfolding mergeObject_overlay[of ?X s] by (simp add: drop_keys_def)
  also have "\<dots> = drop_keys K ?X" unfolding a b by simp
  also have "\<dots> = ?X" by (simp add: drop_keys_drop_keys)
  finally show ?thesis .
qed

lemma map_of_map_overlay:
  "map_of (map (overlay s) t) k = map_option (\<lambda>tv. snd (overlay s (k, tv))) (map_of t k)"
proof (induction t)
  case Nil
  then show ?case by simp
next
  case (Cons a t)
  obtain k' tv where a: "a = (k', tv)" by (cases a)
  show ?case using Cons.IH by (simp add: a overlay_def)
qed

lemma map_of_filter_new:
  "map_of (filter (\<lambda>(k, sv). map_of t k = None) s) k
     = (if map_of t k = None then map_of s k else None)"
  by (induction s) auto

lemma map_of_mergeObject:
  "map_of (mergeObject t s) k =
     (case map_of s k of
        None \<Rightarrow> map_of t k
      | Some sv \<Rightarrow> Some (case map_of t k of None \<Rightarrow> sv | Some tv \<Rightarrow> deepmerge tv sv))"
proof -
  have "map_of (mergeObject t s) k =
      (case map_of (map (overlay s) t) k of
         None \<Rightarrow> map_of (filter (\<lambda>(k, sv). map_of t k = None) s) k
       | Some v \<Rightarrow> Some v)"
    unfolding mergeObject_overlay by (simp add: map_add_def split: option.splits)
  also have "\<dots> =
      (case map_option (\<lambda>tv. snd (overlay s (k, tv))) (map_of t k) of
         None \<Rightarrow> (if map_of t k = None then map_of s k else None)
       | Some v \<Rightarrow> Some v)"
    by (simp only: map_of_map_overlay map_of_filter_new)
  finally show ?thesis
    by (cases "map_of t k"; cases "map_of s k") (simp_all add: overlay_def)
qed

lemma truthy_deepmerge [simp]: "truthy (deepmerge a b) = truthy b"
  by (cases a; cases b) (simp_all add: deepmerge_def)

lemma truthy_jdelete [simp]: "truthy (jdelete k v) = truthy v"
  by (cases v) simp_all

lemma truthy_strip_local [simp]: "truthy (strip_local v) = truthy v"
  by (simp add: strip_local_def)

lemma strip_local_obj:
  "strip_local (JObj xs) = JObj (drop_keys {''rotation'', ''position''} xs)"
  by (simp add: strip_local_def delete_drop_keys drop_keys_drop_keys insert_commute)

lemma strip_local_prim: "(\<And>xs. v \<noteq> JObj xs) \<Longrightarrow> strip_local v = v"
  by (cases v) (auto simp: strip_local_def)

lemma strip_local_idem: "strip_local (strip_local v) = strip_local v"
  by (cases v) (simp_all add: strip_local_obj drop_keys_drop_keys, simp_all add: strip_local_def)

lemma map_of_map_entry_same:
  "map_of (AList.map_entry k g xs) k = map_option g (map_of xs k)"
  by (simp add: map_of_map_entry split: option.splits)

text \<open>The transform of a merged actor is an object when the update's transform is one.\<close>
lemma merged_transform_obj:
  assumes "map_of p k = Some (JObj pt')"
  shows "\<exists>t'. map_of (mergeObject c p) k = Some (JObj (mergeObject t' pt'))"
proof (cases "map_of c k")
  case None
  then have "map_of (mergeObject c p) k = Some (JObj (mergeObject [] pt'))"
    using assms by (simp add: map_of_mergeObject)
  then show ?thesis by blast
next
  case (Some tv)
  obtain t' where t': "deepmerge tv (JObj pt') = JObj (mergeObject t' pt')"
    using deepmerge_obj_form by blast
  have "map_of (mergeObject c p) k = Some (deepmerge tv (JObj pt'))"
    using assms Some by (simp add: map_of_mergeObject)
  then show ?thesis unfolding t' by blast
qed

lemma stripTransform_obj:
  assumes "map_of p ''transform'' = Some (JObj pt')"
    and "map_of M ''transform'' = Some (JObj T)"
  shows "stripTransform M p =
     Inr (if truthy_opt (map_of pt' ''app'') \<and> truthy_opt (map_of T ''local'')
          then AList.map_entry ''transform'' (jmap_entry ''local'' strip_local) M
          else if truthy_opt (map_of pt' ''local'')
          then AList.map_entry ''transform'' (jdelete ''app'') M
          else M)"
  using assms by (simp add: stripTransform_def truthy_opt_def Let_def)

lemma stripTransform_other:
  assumes "\<And>pt'. map_of p ''transform'' \<noteq> Some (JObj pt')"
  shows "stripTransform M p = Inr M"
proof (cases "map_of p ''transform''")
  case None
  then show ?thesis by (simp add: stripTransform_def truthy_opt_def)
next
  case (Some pt)
  then have "jget ''app'' pt = None" "jget ''local'' pt = None"
    using assms by (cases pt; simp)+
  then show ?thesis using Some by (simp add: stripTransform_def truthy_opt_def Let_def)
qed

lemma stripTransform_total: "\<exists>r. stripTransform (mergeObject c p) p = Inr r"
proof (cases "\<exists>pt'. map_of p ''transform'' = Some (JObj pt')")
  case True
  then obtain pt' where pt: "map_of p ''transform'' = Some (JObj pt')" by blast
  obtain t' where "map_of (mergeObject c p) ''transform'' = Some (JObj (mergeObject t' pt'))"
    using merged_transform_obj[OF pt] by blast
  then show ?thesis using stripTransform_obj[OF pt] by blast
next
  case False
  then show ?thesis using stripTransform_other by blast
qed

text \<open>Stripping, merging the update again and stripping again: one level at a time.\<close>

lemma strip_local_again:
  assumes wf: "wf_obj pt'" and mem: "(''local'', x) \<in> set (mergeObject t' pt')"
  shows "strip_local (snd (overlay pt' (''local'', strip_local x))) = strip_local x"
proof (cases "map_of pt' ''local''")
  case None
  then show ?thesis by (simp add: overlay_def strip_local_idem)
next
  case (Some pl)
  obtain tv where x: "x = deepmerge tv pl"
    using mergeObject_entry[OF mem wf_obj_distinct[OF wf] Some] by blast
  have ov: "snd (overlay pt' (''local'', strip_local x)) = deepmerge (strip_local x) pl"
    using Some by (simp add: overlay_def)
  show ?thesis
  proof (cases "\<exists>pl'. pl = JObj pl'")
    case True
    then obtain pl' where pl: "pl = JObj pl'" by blast
    have wfl: "wf_obj pl'" using wf Some pl wf_obj_lookup by blast
    obtain l' where l': "x = JObj (mergeObject l' pl')"
      using x pl deepmerge_obj_form by metis
    let ?K = "{''rotation'', ''position''}"
    have "strip_local (deepmerge (strip_local x) pl)
        = JObj (drop_keys ?K (mergeObject (drop_keys ?K (mergeObject l' pl')) pl'))"
      by (simp add: l' pl strip_local_obj deepmerge_def)
    also have "\<dots> = JObj (drop_keys ?K (mergeObject l' pl'))"
      by (simp add: mergeObject_drop_keys_idem[OF wfl])
    also have "\<dots> = strip_local x" by (simp add: l' strip_local_obj)
    finally show ?thesis unfolding ov .
  next
    case False
    then have dm: "\<And>tv. deepmerge tv pl = pl" by (simp add: deepmerge_prim)
    show ?thesis unfolding ov unfolding x dm ..
  qed
qed

lemma strip_transform_local_again:
  assumes wf: "wf_obj p" and pt: "map_of p ''transform'' = Some (JObj pt')"
    and mem: "(''transform'', v) \<in> set (mergeObject c p)"
  shows "jmap_entry ''local'' strip_local
           (snd (overlay p (''transform'', jmap_entry ''local'' strip_local v)))
         = jmap_entry ''local'' strip_local v"
proof -
  have wft: "wf_obj pt'" using wf pt wf_obj_lookup by blast
  obtain tv where "v = deepmerge tv (JObj pt')"
    using mergeObject_entry[OF mem wf_obj_distinct[OF wf] pt] by blast
  then obtain t' where v: "v = JObj (mergeObject t' pt')"
    using deepmerge_obj_form by metis
  let ?T = "mergeObject t' pt'"
  have "snd (overlay p (''transform'', jmap_entry ''local'' strip_local v))
       = JObj (mergeObject (AList.map_entry ''local'' strip_local ?T) pt')"
    using pt by (simp add: overlay_def v deepmerge_def)
  moreover have "AList.map_entry ''local'' strip_local
                   (mergeObject (AList.map_entry ''local'' strip_local ?T) pt')
                 = AList.map_entry ''local'' strip_local ?T"
    by (rule mergeObject_map_entry_idem[OF wft]) (rule strip_local_again[OF wft])
  ultimately show ?thesis by (simp add: v)
qed

lemma strip_transform_app_again:
  assumes wf: "wf_obj p" and pt: "map_of p ''transform'' = Some (JObj pt')"
    and mem: "(''transform'', v) \<in> set (mergeObject c p)"
  shows "jdelete ''app'' (snd (overlay p (''transform'', jdelete ''app'' v))) = jdelete ''app'' v"
proof -
  have wft: "wf_obj pt'" using wf pt wf_obj_lookup by blast
  obtain tv where "v = deepmerge tv (JObj pt')"
    using mergeObject_entry[OF mem wf_obj_distinct[OF wf] pt] by blast
  then obtain t' where v: "v = JObj (mergeObject t' pt')"
    using deepmerge_obj_form by metis
  let ?T = "mergeObject t' pt'"
  have "snd (overlay p (''transform'', jdelete ''app'' v))
       = JObj (mergeObject (drop_keys {''app''} ?T) pt')"
    using pt by (simp add: overlay_def v deepmerge_def delete_drop_keys)
  then show ?thesis
    by (simp add: v delete_drop_keys mergeObject_drop_keys_idem[OF wft])
qed

text \<open>Whether the merged transform has a local part does not change in the second round.\<close>
lemma merged_local_truthy:
  "truthy_opt (map_of (mergeObject t' pt') ''local'')
     = (case map_of pt' ''local'' of
          None \<Rightarrow> truthy_opt (map_of t' ''local'')
        | Some pl \<Rightarrow> truthy pl)"
  by (simp add: map_of_mergeObject truthy_opt_def split: option.splits)

lemma stripTransform_idem:
  assumes wf: "wf_obj p" and first: "stripTransform (mergeObject c p) p = Inr r"
  shows "stripTransform (mergeObject r p) p = Inr r"
proof (cases "\<exists>pt'. map_of p ''transform'' = Some (JObj pt')")
  case False
  then have same: "\<And>M. stripTransform M p = Inr M" using stripTransform_other by blast
  have "r = mergeObject c p" using first same by simp
  then have "mergeObject r p = r" using mergeObject_idem[OF wf] by simp
  then show ?thesis using same by simp
next
  case True
  then obtain pt' where pt: "map_of p ''transform'' = Some (JObj pt')" by blast
  have wft: "wf_obj pt'" using wf pt wf_obj_lookup by blast
  let ?M = "mergeObject c p"
  obtain t' where T: "map_of ?M ''transform'' = Some (JObj (mergeObject t' pt'))"
    using merged_transform_obj[OF pt] by blast
  let ?T = "mergeObject t' pt'"
  let ?A = "truthy_opt (map_of pt' ''app'')"
  let ?L = "truthy_opt (map_of pt' ''local'')"
  let ?CL = "truthy_opt (map_of ?T ''local'')"
  let ?g1 = "jmap_entry ''local'' strip_local"
  let ?g2 = "jdelete ''app''"
  note char = stripTransform_obj[OF pt]
  consider (local) "?A" "?CL" | (app) "\<not> (?A \<and> ?CL)" "?L" | (none) "\<not> (?A \<and> ?CL)" "\<not> ?L"
    by blast
  then show ?thesis
  proof cases
    case local
    have r: "r = AList.map_entry ''transform'' ?g1 ?M"
      using first local char[OF T] by simp
    obtain t2 where T2: "map_of (mergeObject r p) ''transform'' = Some (JObj (mergeObject t2 pt'))"
      using merged_transform_obj[OF pt] by blast
    have "map_of r ''transform'' = Some (JObj (AList.map_entry ''local'' strip_local ?T))"
      by (simp add: r map_of_map_entry_same T)
    then have "map_of (mergeObject r p) ''transform''
         = Some (JObj (mergeObject (AList.map_entry ''local'' strip_local ?T) pt'))"
      using pt by (simp add: map_of_mergeObject deepmerge_def)
    then have t2: "mergeObject t2 pt' = mergeObject (AList.map_entry ''local'' strip_local ?T) pt'"
      using T2 by simp
    let ?X = "AList.map_entry ''local'' strip_local ?T"
    have b: "truthy_opt (map_of ?X ''local'') = ?CL"
      by (simp only: map_of_map_entry_same)
         (simp add: truthy_opt_def split: option.splits)
    have "truthy_opt (map_of (mergeObject ?X pt') ''local'') = ?CL"
    proof (cases "map_of pt' ''local''")
      case None
      then have "truthy_opt (map_of (mergeObject ?X pt') ''local'') = truthy_opt (map_of ?X ''local'')"
        by (simp only: merged_local_truthy option.case)
      then show ?thesis using b by simp
    next
      case (Some pl)
      then show ?thesis by (simp only: merged_local_truthy option.case)
    qed
    then have "truthy_opt (map_of (mergeObject t2 pt') ''local'') = ?CL"
      unfolding t2 .
    then have "stripTransform (mergeObject r p) p
        = Inr (AList.map_entry ''transform'' ?g1 (mergeObject r p))"
      using local char[OF T2] by simp
    also have "AList.map_entry ''transform'' ?g1 (mergeObject r p) = r"
      unfolding r
      by (rule mergeObject_map_entry_idem[OF wf]) (rule strip_transform_local_again[OF wf pt])
    finally show ?thesis .
  next
    case app
    have r: "r = AList.map_entry ''transform'' ?g2 ?M"
      using first app char[OF T] by auto
    obtain t2 where T2: "map_of (mergeObject r p) ''transform'' = Some (JObj (mergeObject t2 pt'))"
      using merged_transform_obj[OF pt] by blast
    have "\<not> ?A"
    proof
      assume a: "?A"
      obtain pl where "map_of pt' ''local'' = Some pl" "truthy pl"
        using app(2) by (auto simp: truthy_opt_def split: option.splits)
      then have "?CL" by (simp add: merged_local_truthy)
      then show False using app(1) a by blast
    qed
    then have "stripTransform (mergeObject r p) p
        = Inr (AList.map_entry ''transform'' ?g2 (mergeObject r p))"
      using app char[OF T2] by simp
    also have "AList.map_entry ''transform'' ?g2 (mergeObject r p) = r"
      unfolding r
      by (rule mergeObject_map_entry_idem[OF wf]) (rule strip_transform_app_again[OF wf pt])
    finally show ?thesis .
  next
    case none
    have r: "r = ?M" using first none char[OF T] by auto
    have M2: "mergeObject r p = ?M" unfolding r by (rule mergeObject_idem[OF wf])
    show ?thesis unfolding M2 using first r by simp
  qed
qed

section \<open>Properties of the actor cache\<close>

lemma setCachedActor_simps [simp]:
  "cachedActor (setCachedActor a sa) = a"
  "setCachedActor a (setCachedActor b sa) = setCachedActor a sa"
  "exclusiveToUser (setCachedActor a sa) = exclusiveToUser sa"
  "actorId (setCachedActor a sa) = actorId sa"
  by (simp_all add: cachedActor_def setCachedActor_def)

lemma update_update_same: "AList.update k v (AList.update k w al) = AList.update k v al"
  by (induction al) auto

lemma map_of_update_same: "map_of (AList.update k v al) k = Some v"
  by (simp add: update_conv')

text \<open>What the update of a cached actor returns.\<close>
lemma cacheActorUpdateMessage_cached:
  assumes "map_of (actorSet s) (key_of (map_of (actor (payload m)) ''id'')) = Some syncActor"
    and "stripTransform (mergeObject (cachedActor syncActor) (actor (payload m))) (actor (payload m)) = Inr r"
  shows "cacheActorUpdateMessage m s =
           (s\<lparr>actorSet := AList.update (key_of (map_of (actor (payload m)) ''id''))
                 (setCachedActor r syncActor) (actorSet s)\<rparr>, None)"
  using assms by (simp add: cacheActorUpdateMessage_def Let_def)

lemma jget_strip_local:
  "k \<in> {''rotation'', ''position''} \<Longrightarrow> jget k (strip_local v) = None"
proof (cases v)
  case (JObj xs)
  assume "k \<in> {''rotation'', ''position''}"
  then have "k \<notin> fst ` set (drop_keys {''rotation'', ''position''} xs)"
    by (auto simp: drop_keys_def)
  then show ?thesis by (simp add: JObj strip_local_obj map_of_eq_None_iff)
qed (simp_all add: strip_local_def)

lemma jget_falsy: "\<not> truthy v \<Longrightarrow> jget k v = None"
  by (cases v) simp_all

lemma map_of_delete_same: "map_of (AList.delete k al) k = None"
  by (simp add: delete_conv')

text \<open>The transform-space exclusion on the actor objects.\<close>
lemma stripTransform_exclusion:
  assumes "stripTransform (mergeObject c p) p = Inr r"
  shows "if contains_path p [''transform'', ''app'']
         then absent_path r [''transform'', ''local'', ''position''] \<and>
              absent_path r [''transform'', ''local'', ''rotation'']
         else if contains_path p [''transform'', ''local'']
         then absent_path r [''transform'', ''app'']
         else r = mergeObject c p"
proof (cases "\<exists>pt'. map_of p ''transform'' = Some (JObj pt')")
  case False
  then have np: "\<And>pt'. map_of p ''transform'' \<noteq> Some (JObj pt')" by blast
  have "\<And>k. truthy_opt (get_path (JObj p) [''transform'', k]) = False"
  proof -
    fix k
    show "truthy_opt (get_path (JObj p) [''transform'', k]) = False"
    proof (cases "map_of p ''transform''")
      case None
      then show ?thesis by (simp add: truthy_opt_def)
    next
      case (Some pt)
      then have "jget k pt = None" using np by (cases pt) simp_all
      then show ?thesis using Some by (simp add: truthy_opt_def)
    qed
  qed
  then have "\<not> contains_path p [''transform'', ''app'']" "\<not> contains_path p [''transform'', ''local'']"
    by (simp_all add: contains_path_def)
  moreover have "r = mergeObject c p" using assms stripTransform_other[OF np] by simp
  ultimately show ?thesis by simp
next
  case True
  then obtain pt' where pt: "map_of p ''transform'' = Some (JObj pt')" by blast
  let ?M = "mergeObject c p"
  obtain t' where T: "map_of ?M ''transform'' = Some (JObj (mergeObject t' pt'))"
    using merged_transform_obj[OF pt] by blast
  let ?T = "mergeObject t' pt'"
  have A: "contains_path p [''transform'', ''app''] = truthy_opt (map_of pt' ''app'')"
    using pt by (simp add: contains_path_def split: option.splits)
  have L: "contains_path p [''transform'', ''local''] = truthy_opt (map_of pt' ''local'')"
    using pt by (simp add: contains_path_def split: option.splits)
  note char = stripTransform_obj[OF pt T]
  show ?thesis
  proof (cases "truthy_opt (map_of pt' ''app'')")
    case app: True
    show ?thesis
    proof (cases "truthy_opt (map_of ?T ''local'')")
      case True
      then have r: "r = AList.map_entry ''transform'' (jmap_entry ''local'' strip_local) ?M"
        using assms app char by simp
      have "map_of r ''transform'' = Some (JObj (AList.map_entry ''local'' strip_local ?T))"
        by (simp add: r map_of_map_entry_same T)
      then have "\<And>k. k \<in> {''rotation'', ''position''} \<Longrightarrow>
            get_path (JObj r) [''transform'', ''local'', k] = None"
        by (simp add: map_of_map_entry_same jget_strip_local split: option.splits)
      then show ?thesis using app A by (simp add: absent_path_def)
    next
      case False
      have nl: "\<not> truthy_opt (map_of pt' ''local'')"
      proof
        assume "truthy_opt (map_of pt' ''local'')"
        then obtain pl where "map_of pt' ''local'' = Some pl" "truthy pl"
          by (auto simp: truthy_opt_def split: option.splits)
        then have "truthy_opt (map_of ?T ''local'')" by (simp add: merged_local_truthy)
        then show False using False by simp
      qed
      have r: "r = ?M" using assms False nl char by simp
      have "\<And>k. get_path (JObj r) [''transform'', ''local'', k] = None"
        using False T by (auto simp: r truthy_opt_def jget_falsy split: option.splits)
      then show ?thesis using app A by (simp add: absent_path_def)
    qed
  next
    case napp: False
    show ?thesis
    proof (cases "truthy_opt (map_of pt' ''local'')")
      case True
      then have r: "r = AList.map_entry ''transform'' (jdelete ''app'') ?M"
        using assms napp char by simp
      have "map_of r ''transform'' = Some (JObj (AList.delete ''app'' ?T))"
        by (simp add: r map_of_map_entry_same T)
      then have "get_path (JObj r) [''transform'', ''app''] = None"
        by (simp add: map_of_delete_same)
      then show ?thesis using napp True A L by (simp add: absent_path_def)
    next
      case False
      then have "r = ?M" using assms napp char by simp
      then show ?thesis using napp False A L by simp
    qed
  qed
qed

lemma overlay_apply:
  "overlay s (k, tv) = (k, case map_of s k of None \<Rightarrow> tv | Some sv \<Rightarrow> deepmerge tv sv)"
  by (simp add: overlay_def)

lemma deepmerge_simps:
  "deepmerge (JObj t) (JObj s) = JObj (mergeObject t s)"
  "deepmerge w JNull = JNull"
  "deepmerge w (JBool b) = JBool b"
  "deepmerge w (JNum n) = JNum n"
  "deepmerge w (JStr x) = JStr x"
  "deepmerge w (JArr xs) = JArr xs"
  "deepmerge JNull v = v"
  "deepmerge (JBool b) v = v"
  "deepmerge (JNum n) v = v"
  "deepmerge (JStr x) v = v"
  "deepmerge (JArr xs) v = v"
  by (cases w; simp add: deepmerge_def)+

lemmas merge_eval = mergeObject_overlay overlay_apply deepmerge_simps

text \<open>
  Claim C9. When an initialize-actor message arrives for an actor id that is cached with an
  initialization message of payload type \<^verbatim>\<open>x-reserve-actor\<close>,
  \<^verbatim>\<open>cacheInitializeActorMessage\<close> replaces the cached initialization message with
  the incoming message, whose payload's \<^verbatim>\<open>actor\<close> is set to the actor state that was
  cached for the reservation; nothing else of the cached actor changes (so its
  \<^verbatim>\<open>exclusiveToUser\<close> is retained), and no other entry of the actor set changes.
\<close>
theorem cacheInitializeActorMessage_reserved:
  assumes "map_of (actorSet s) (key_of (map_of (actor (payload m)) ''id'')) = Some syncActor"
    and "ptype (payload (message (initialization syncActor))) = ''x-reserve-actor''"
  shows "map_of (actorSet (cacheInitializeActorMessage m s)) (key_of (map_of (actor (payload m)) ''id''))
           = Some (syncActor\<lparr>initialization := (initialization syncActor)
                     \<lparr>message := m\<lparr>payload := (payload m)\<lparr>actor := cachedActor syncActor\<rparr>\<rparr>\<rparr>\<rparr>)
         \<and> cacheInitializeActorMessage m s
           = s\<lparr>actorSet := AList.update (key_of (map_of (actor (payload m)) ''id''))
                  (syncActor\<lparr>initialization := (initialization syncActor)
                     \<lparr>message := m\<lparr>payload := (payload m)\<lparr>actor := cachedActor syncActor\<rparr>\<rparr>\<rparr>\<rparr>)
                  (actorSet s)\<rparr>"
  using assms by (simp add: cacheInitializeActorMessage_def Let_def map_of_update_same)

theorem cacheInitializeActorMessage_reserved_witness:
  "map_of (actorSet (cacheInitializeActorMessage reserveA1 emptySession))
       (key_of (map_of (actor (payload createA1)) ''id''))
     = Some \<lparr>actorId = Some (JStr ''A1''), initialization = \<lparr>message = reserveA1\<rparr>,
             createdAnimations = None, activeMediaInstances = None,
             activeInterpolations = None, behavior = None, grabbedBy = None,
             exclusiveToUser = Some (JStr ''U1'')\<rparr>
   \<and> ptype (payload reserveA1) = ''x-reserve-actor''
   \<and> map_of (actorSet (cacheInitializeActorMessage createA1
                (cacheInitializeActorMessage reserveA1 emptySession))) ''A1''
     = Some \<lparr>actorId = Some (JStr ''A1''),
             initialization = \<lparr>message = actorMessage ''m2'' ''create-empty''
                [(''id'', JStr ''A1''), (''exclusiveToUser'', JStr ''U1'')]\<rparr>,
             createdAnimations = None, activeMediaInstances = None,
             activeInterpolations = None, behavior = None, grabbedBy = None,
             exclusiveToUser = Some (JStr ''U1'')\<rparr>"
proof -
  let ?s = "cacheInitializeActorMessage reserveA1 emptySession"
  let ?sa = "\<lparr>actorId = Some (JStr ''A1''), initialization = \<lparr>message = reserveA1\<rparr>,
             createdAnimations = None, activeMediaInstances = None,
             activeInterpolations = None, behavior = None, grabbedBy = None,
             exclusiveToUser = Some (JStr ''U1'')\<rparr>"
  have h1: "map_of (actorSet ?s) (key_of (map_of (actor (payload createA1)) ''id'')) = Some ?sa"
    by (simp add: cacheInitializeActorMessage_def emptySession_def reserveA1_def createA1_def
          actorMessage_def truthy_opt_def)
  have h2: "ptype (payload (message (initialization ?sa))) = ''x-reserve-actor''"
    by (simp add: reserveA1_def actorMessage_def)
  have k: "key_of (map_of (actor (payload createA1)) ''id'') = ''A1''"
    by (simp add: createA1_def actorMessage_def)
  have "map_of (actorSet (cacheInitializeActorMessage createA1 ?s)) ''A1''
      = Some (?sa\<lparr>initialization := (initialization ?sa)
            \<lparr>message := createA1\<lparr>payload := (payload createA1)\<lparr>actor := cachedActor ?sa\<rparr>\<rparr>\<rparr>\<rparr>)"
    using cacheInitializeActorMessage_reserved[OF h1 h2] unfolding k by blast
  then show ?thesis using h1 h2
    by (simp add: cachedActor_def reserveA1_def createA1_def actorMessage_def)
qed

text \<open>
  Claim C1. For a cached actor and an actor update applied by
  \<^verbatim>\<open>cacheActorUpdateMessage\<close>: the call does not throw, and the actor that the cache
  holds afterwards for the update's id, read from the stored entry, is the merge of the
  update into the previously cached actor with the transform stripped, such that: if the
  update contains \<^verbatim>\<open>transform.app\<close>, then \<^verbatim>\<open>transform.local.position\<close> and
  \<^verbatim>\<open>transform.local.rotation\<close> are absent from the cached actor; otherwise, if the
  update contains \<^verbatim>\<open>transform.local\<close>, then \<^verbatim>\<open>transform.app\<close> is absent from the
  cached actor; otherwise the cached actor is the plain merge. An update contains a
  part when it has a value there that JavaScript takes for present, as every object is:
  that is the test the source makes.
\<close>
theorem cacheActorUpdateMessage_transform_exclusion:
  assumes "map_of (actorSet s) (key_of (map_of (actor (payload m)) ''id'')) = Some syncActor"
  shows "\<exists>syncActor'.
             snd (cacheActorUpdateMessage m s) = None
           \<and> map_of (actorSet (fst (cacheActorUpdateMessage m s)))
                 (key_of (map_of (actor (payload m)) ''id'')) = Some syncActor'
           \<and> stripTransform (mergeObject (cachedActor syncActor) (actor (payload m)))
                 (actor (payload m)) = Inr (cachedActor syncActor')
           \<and> (if contains_path (actor (payload m)) [''transform'', ''app'']
              then absent_path (cachedActor syncActor') [''transform'', ''local'', ''position''] \<and>
                   absent_path (cachedActor syncActor') [''transform'', ''local'', ''rotation'']
              else if contains_path (actor (payload m)) [''transform'', ''local'']
              then absent_path (cachedActor syncActor') [''transform'', ''app'']
              else cachedActor syncActor'
                   = mergeObject (cachedActor syncActor) (actor (payload m)))"
proof -
  obtain r where r: "stripTransform (mergeObject (cachedActor syncActor) (actor (payload m)))
                       (actor (payload m)) = Inr r"
    using stripTransform_total by blast
  let ?sa = "setCachedActor r syncActor"
  note res = cacheActorUpdateMessage_cached[OF assms r]
  have none: "snd (cacheActorUpdateMessage m s) = None"
    unfolding res by simp
  have look: "map_of (actorSet (fst (cacheActorUpdateMessage m s)))
          (key_of (map_of (actor (payload m)) ''id'')) = Some ?sa"
    unfolding res by (simp add: map_of_update_same)
  have stored: "cachedActor ?sa = r"
    by (simp add: cachedActor_def setCachedActor_def)
  have excl: "if contains_path (actor (payload m)) [''transform'', ''app'']
      then absent_path r [''transform'', ''local'', ''position''] \<and>
           absent_path r [''transform'', ''local'', ''rotation'']
      else if contains_path (actor (payload m)) [''transform'', ''local'']
      then absent_path r [''transform'', ''app'']
      else r = mergeObject (cachedActor syncActor) (actor (payload m))"
    by (rule stripTransform_exclusion[OF r])
  show ?thesis
    apply (rule exI[of _ ?sa])
    apply (subst stored)+
    apply (intro conjI)
       apply (rule none)
      apply (rule look)
     apply (rule r)
    apply (rule excl)
    done
qed

lemma scenario3_session:
  "cacheInitializeActorMessage createA2 emptySession = emptySession\<lparr>actorSet := [(''A2'', syncA2)]\<rparr>"
  by (simp add: cacheInitializeActorMessage_def emptySession_def createA2_def syncA2_def
        actorMessage_def truthy_opt_def)

lemma scenario3_result:
  "fst (cacheActorUpdateMessage updateA2 (emptySession\<lparr>actorSet := [(''A2'', syncA2)]\<rparr>))
     = emptySession\<lparr>actorSet := [(''A2'', setCachedActor
         [(''id'', JStr ''A2''),
          (''transform'', JObj [(''local'', JObj []),
                               (''app'', JObj [(''position'', JNum 3), (''rotation'', JNum 4)])])]
         syncA2)]\<rparr>"
  by (simp add: cacheActorUpdateMessage_def Let_def updateA2_def actorMessage_def syncA2_def
        createA2_def cachedActor_def stripTransform_def truthy_opt_def strip_local_def
        merge_eval emptySession_def)

theorem cacheActorUpdateMessage_transform_exclusion_witness:
  "map_of (actorSet (emptySession\<lparr>actorSet := [(''A2'', syncA2)]\<rparr>))
       (key_of (map_of (actor (payload updateA2)) ''id'')) = Some syncA2
   \<and> cachedActor syncA2
       = [(''id'', JStr ''A2''),
          (''transform'', JObj [(''local'', JObj [(''position'', JNum 1), (''rotation'', JNum 2)])])]
   \<and> contains_path (actor (payload updateA2)) [''transform'', ''app'']
   \<and> (\<exists>syncActor'.
         map_of (actorSet (fst (cacheActorUpdateMessage updateA2
                 (emptySession\<lparr>actorSet := [(''A2'', syncA2)]\<rparr>)))) ''A2'' = Some syncActor'
       \<and> cachedActor syncActor'
           = [(''id'', JStr ''A2''),
              (''transform'', JObj [(''local'', JObj []),
                                   (''app'', JObj [(''position'', JNum 3), (''rotation'', JNum 4)])])]
       \<and> absent_path (cachedActor syncActor') [''transform'', ''local'', ''position'']
       \<and> absent_path (cachedActor syncActor') [''transform'', ''local'', ''rotation''])"
proof -
  let ?s = "emptySession\<lparr>actorSet := [(''A2'', syncA2)]\<rparr>"
  have h: "map_of (actorSet ?s) (key_of (map_of (actor (payload updateA2)) ''id'')) = Some syncA2"
    by (simp add: updateA2_def actorMessage_def)
  have k: "key_of (map_of (actor (payload updateA2)) ''id'') = ''A2''"
    by (simp add: updateA2_def actorMessage_def)
  have c: "contains_path (actor (payload updateA2)) [''transform'', ''app'']"
    by (simp add: updateA2_def actorMessage_def contains_path_def truthy_opt_def)
  have a: "cachedActor syncA2
       = [(''id'', JStr ''A2''),
          (''transform'', JObj [(''local'', JObj [(''position'', JNum 1), (''rotation'', JNum 2)])])]"
    by (simp add: cachedActor_def syncA2_def createA2_def actorMessage_def)
  obtain sa' where sa':
      "map_of (actorSet (fst (cacheActorUpdateMessage updateA2 ?s))) ''A2'' = Some sa'"
      "absent_path (cachedActor sa') [''transform'', ''local'', ''position'']"
      "absent_path (cachedActor sa') [''transform'', ''local'', ''rotation'']"
    using cacheActorUpdateMessage_transform_exclusion[OF h] c unfolding k by auto
  have "map_of (actorSet (fst (cacheActorUpdateMessage updateA2 ?s))) ''A2''
      = Some (setCachedActor
         [(''id'', JStr ''A2''),
          (''transform'', JObj [(''local'', JObj []),
                               (''app'', JObj [(''position'', JNum 3), (''rotation'', JNum 4)])])]
         syncA2)"
    unfolding scenario3_result by simp
  then have "cachedActor sa'
           = [(''id'', JStr ''A2''),
              (''transform'', JObj [(''local'', JObj []),
                                   (''app'', JObj [(''position'', JNum 3), (''rotation'', JNum 4)])])]"
    using sa'(1) by (auto simp: cachedActor_def setCachedActor_def)
  then show ?thesis using h a c sa' by blast
qed

text \<open>
  Claim C3. Applying \<^verbatim>\<open>cacheActorUpdateMessage\<close> twice with the same update gives
  the same session (and, both times, no exception) as applying it once, for every
  session and every update whose actor is a JavaScript object (each key once); and the
  deep merge alone is idempotent in the same sense, for every target.
\<close>
theorem cacheActorUpdateMessage_idempotent:
  assumes "wf_obj (actor (payload m))"
  shows "cacheActorUpdateMessage m (fst (cacheActorUpdateMessage m s)) = cacheActorUpdateMessage m s
       \<and> snd (cacheActorUpdateMessage m s) = None
       \<and> mergeObject (mergeObject c (actor (payload m))) (actor (payload m))
           = mergeObject c (actor (payload m))"
proof -
  let ?p = "actor (payload m)"
  let ?k = "key_of (map_of ?p ''id'')"
  have "cacheActorUpdateMessage m (fst (cacheActorUpdateMessage m s)) = cacheActorUpdateMessage m s
       \<and> snd (cacheActorUpdateMessage m s) = None"
  proof (cases "map_of (actorSet s) ?k")
    case None
    then show ?thesis by (simp add: cacheActorUpdateMessage_def)
  next
    case (Some syncActor)
    obtain r where r: "stripTransform (mergeObject (cachedActor syncActor) ?p) ?p = Inr r"
      using stripTransform_total by blast
    let ?s1 = "s\<lparr>actorSet := AList.update ?k (setCachedActor r syncActor) (actorSet s)\<rparr>"
    have first: "cacheActorUpdateMessage m s = (?s1, None)"
      by (rule cacheActorUpdateMessage_cached[OF Some r])
    have look: "map_of (actorSet ?s1) ?k = Some (setCachedActor r syncActor)"
      by (simp add: map_of_update_same)
    have r2: "stripTransform (mergeObject (cachedActor (setCachedActor r syncActor)) ?p) ?p = Inr r"
      using stripTransform_idem[OF assms r] by simp
    have "cacheActorUpdateMessage m ?s1 = (?s1, None)"
      unfolding cacheActorUpdateMessage_cached[OF look r2]
      by (simp add: update_update_same)
    then show ?thesis using first by simp
  qed
  then show ?thesis using mergeObject_idem[OF assms] by blast
qed

lemma wf_obj_Nil [simp]: "wf_obj []"
  by (simp add: wf_obj.simps)

lemma wf_obj_Cons:
  "wf_obj ((k, v) # kvs) =
     (k \<notin> fst ` set kvs \<and> (case v of JObj ob \<Rightarrow> wf_obj ob | _ \<Rightarrow> True) \<and> wf_obj kvs)"
proof -
  have a: "wf_obj ((k, v) # kvs) = (distinct (map fst ((k, v) # kvs)) \<and>
       list_all (\<lambda>(k, v). case v of JObj ob \<Rightarrow> wf_obj ob | _ \<Rightarrow> True) ((k, v) # kvs))"
    by (rule wf_obj.simps)
  have b: "wf_obj kvs = (distinct (map fst kvs) \<and>
       list_all (\<lambda>(k, v). case v of JObj ob \<Rightarrow> wf_obj ob | _ \<Rightarrow> True) kvs)"
    by (rule wf_obj.simps)
  show ?thesis unfolding a b by auto
qed

theorem cacheActorUpdateMessage_idempotent_witness:
  "wf_obj (actor (payload updateA2))
   \<and> cacheActorUpdateMessage updateA2 (fst (cacheActorUpdateMessage updateA2
         (emptySession\<lparr>actorSet := [(''A2'', syncA2)]\<rparr>)))
       = cacheActorUpdateMessage updateA2 (emptySession\<lparr>actorSet := [(''A2'', syncA2)]\<rparr>)
   \<and> actorSet (fst (cacheActorUpdateMessage updateA2 (emptySession\<lparr>actorSet := [(''A2'', syncA2)]\<rparr>)))
       = [(''A2'', setCachedActor
         [(''id'', JStr ''A2''),
          (''transform'', JObj [(''local'', JObj []),
                               (''app'', JObj [(''position'', JNum 3), (''rotation'', JNum 4)])])]
         syncA2)]"
proof -
  have h: "wf_obj (actor (payload updateA2))"
    by (simp add: updateA2_def actorMessage_def wf_obj_Cons)
  show ?thesis
    using h cacheActorUpdateMessage_idempotent[OF h, of "emptySession\<lparr>actorSet := [(''A2'', syncA2)]\<rparr>"]
    by (simp add: scenario3_result)
qed

section \<open>Properties of the asset cache\<close>

lemma scenario5_eval:
  "scenario5 = emptySession
     \<lparr>assetCreatorSet := [(''M1'', createAssetM1)],
      assetSet := [(''X'', \<lparr>id_a = ''X'', duration = None, creatorMessageId = None,
                            update_a = Some updateX\<rparr>)]\<rparr>"
  by (simp add: scenario5_def cacheAssetUpdate_def cacheAssetCreationRequest_def Let_def
        emptySession_def createAssetM1_def updateX_def key_def)

text \<open>The creation of an asset never touches the creators.\<close>

lemma cacheAssetCreation_creators:
  "assetCreatorSet (fst (cacheAssetCreation assetId creatorId dur s)) = assetCreatorSet s"
  by (simp add: cacheAssetCreation_def Let_def split: option.splits)

lemma cacheAssetCreation_stored:
  "map_of (assetSet (fst (cacheAssetCreation assetId creatorId dur s))) assetId
     = Some \<lparr>id_a = assetId, duration = dur, creatorMessageId = Some creatorId, update_a = None\<rparr>"
  by (simp add: cacheAssetCreation_def Let_def update_conv' split: option.splits)

text \<open>
  Claim C6, at the input of scenario 5 of the specification: the creator \<^verbatim>\<open>M1\<close> is a
  \<^verbatim>\<open>create-asset\<close> message, and an update of the asset \<^verbatim>\<open>X\<close> was buffered before the
  asset was created. \<^verbatim>\<open>cacheAssetCreation\<close> stores the new asset (id, duration and
  creator) without the buffered update, and leaves the definition of the creator as it
  was: the update is lost, where the claim has it merged into the definition.
\<close>
theorem cacheAssetCreation_drops_buffered_update:
  "map_of (assetSet scenario5) ''X''
     = Some \<lparr>id_a = ''X'', duration = None, creatorMessageId = None, update_a = Some updateX\<rparr>
   \<and> map_of (assetCreatorSet scenario5) ''M1'' = Some createAssetM1
   \<and> ptype (payload createAssetM1) = ''create-asset''
   \<and> cacheAssetCreation ''X'' ''M1'' (Some 7) scenario5
     = (emptySession
         \<lparr>assetCreatorSet := [(''M1'', createAssetM1)],
          assetSet := [(''X'', \<lparr>id_a = ''X'', duration = Some 7, creatorMessageId = Some ''M1'',
                                update_a = None\<rparr>)]\<rparr>, None)
   \<and> definition_a (payload createAssetM1) = Some [(''id'', JStr ''X''), (''name'', JStr ''old'')]
   \<and> merge_definition (definition_a (payload createAssetM1)) (asset (payload updateX))
     = [(''id'', JStr ''X''), (''name'', JStr ''new'')]"
  unfolding scenario5_eval
  by (simp add: cacheAssetCreation_def Let_def emptySession_def createAssetM1_def updateX_def
        merge_definition_def merge_eval)

lemma delete_filter: "AList.delete k al = filter (\<lambda>e. fst e \<noteq> k) al"
  by (induction al) auto

text \<open>The inner loop of the unload: the assets of one creator are deleted by their ids.\<close>

lemma unload_assets_fold:
  "fold (\<lambda>a s'. s'\<lparr>assetSet := AList.delete (id_a a) (assetSet s')\<rparr>) as s
     = s\<lparr>assetSet := filter (\<lambda>e. fst e \<notin> id_a ` set as) (assetSet s)\<rparr>"
proof (induction as arbitrary: s)
  case Nil
  then show ?case by simp
next
  case (Cons a as)
  have "filter (\<lambda>e. fst e \<notin> id_a ` set as) (AList.delete (id_a a) (assetSet s))
      = filter (\<lambda>e. fst e \<notin> id_a ` set (a # as)) (assetSet s)"
    unfolding delete_filter filter_filter by (rule filter_cong) auto
  then show ?case by (simp add: Cons.IH)
qed

lemma unloadCreator_eq:
  assumes "distinct (map fst (assetSet s))" and "list_all (\<lambda>(k, a). id_a a = k) (assetSet s)"
  shows "unloadCreator c s =
           s\<lparr>assetCreatorSet := filter (\<lambda>e. fst e \<noteq> key (id_m c)) (assetCreatorSet s),
             assetSet := filter (\<lambda>(k, a). creatorMessageId a \<noteq> id_m c) (assetSet s)\<rparr>"
proof -
  let ?as = "filter (\<lambda>a. creatorMessageId a = id_m c) (map snd (assetSet s))"
  have "filter (\<lambda>e. fst e \<notin> id_a ` set ?as) (assetSet s)
      = filter (\<lambda>(k, a). creatorMessageId a \<noteq> id_m c) (assetSet s)"
  proof (rule filter_cong[OF refl])
    fix e assume e: "e \<in> set (assetSet s)"
    obtain k a where ka: "e = (k, a)" by (cases e)
    have ida: "id_a a = k" using assms(2) e ka by (auto simp: list_all_iff)
    have "k \<in> id_a ` set ?as \<longleftrightarrow> creatorMessageId a = id_m c"
    proof
      assume "k \<in> id_a ` set ?as"
      then obtain k' a' where a': "(k', a') \<in> set (assetSet s)" "creatorMessageId a' = id_m c"
          "id_a a' = k"
        by auto
      then have "k' = k" using assms(2) by (auto simp: list_all_iff)
      then have "a' = a" using a'(1) e ka assms(1) by (metis eq_key_imp_eq_value)
      then show "creatorMessageId a = id_m c" using a'(2) by simp
    next
      assume "creatorMessageId a = id_m c"
      then have "a \<in> set ?as" using e ka by force
      then show "k \<in> id_a ` set ?as" using ida by blast
    qed
    then show "(fst e \<notin> id_a ` set ?as) = (case e of (k, a) \<Rightarrow> creatorMessageId a \<noteq> id_m c)"
      by (simp add: ka)
  qed
  moreover have "unloadCreator c s =
      s\<lparr>assetCreatorSet := AList.delete (key (id_m c)) (assetCreatorSet s),
        assetSet := filter (\<lambda>e. fst e \<notin> id_a ` set ?as) (assetSet s)\<rparr>"
    by (simp add: unloadCreator_def Let_def unload_assets_fold)
  ultimately show ?thesis by (simp only: delete_filter)
qed

lemma unload_fold:
  assumes "distinct (map fst (assetSet s))" and "list_all (\<lambda>(k, a). id_a a = k) (assetSet s)"
  shows "fold unloadCreator cs s =
           s\<lparr>assetCreatorSet := filter (\<lambda>e. fst e \<notin> (\<lambda>c. key (id_m c)) ` set cs) (assetCreatorSet s),
             assetSet := filter (\<lambda>(k, a). creatorMessageId a \<notin> id_m ` set cs) (assetSet s)\<rparr>"
  using assms
proof (induction cs arbitrary: s)
  case Nil
  then show ?case by simp
next
  case (Cons c cs)
  let ?s1 = "unloadCreator c s"
  note s1 = unloadCreator_eq[OF Cons.prems, of c]
  have d: "distinct (map fst (assetSet ?s1))"
    unfolding s1 using Cons.prems(1) by (simp add: distinct_map_filter)
  have k: "list_all (\<lambda>(k, a). id_a a = k) (assetSet ?s1)"
    unfolding s1 using Cons.prems(2) by (simp add: list_all_iff)
  have a: "filter (\<lambda>e. fst e \<notin> (\<lambda>c. key (id_m c)) ` set cs)
             (filter (\<lambda>e. fst e \<noteq> key (id_m c)) (assetCreatorSet s))
         = filter (\<lambda>e. fst e \<notin> (\<lambda>c. key (id_m c)) ` set (c # cs)) (assetCreatorSet s)"
    unfolding filter_filter by (rule filter_cong) auto
  have b: "filter (\<lambda>(k, a). creatorMessageId a \<notin> id_m ` set cs)
             (filter (\<lambda>(k, a). creatorMessageId a \<noteq> id_m c) (assetSet s))
         = filter (\<lambda>(k, a). creatorMessageId a \<notin> id_m ` set (c # cs)) (assetSet s)"
    unfolding filter_filter by (rule filter_cong) auto
  have "fold unloadCreator (c # cs) s = fold unloadCreator cs ?s1" by simp
  also have "\<dots> = ?s1\<lparr>assetCreatorSet := filter (\<lambda>e. fst e \<notin> (\<lambda>c. key (id_m c)) ` set cs) (assetCreatorSet ?s1),
             assetSet := filter (\<lambda>(k, a). creatorMessageId a \<notin> id_m ` set cs) (assetSet ?s1)\<rparr>"
    by (rule Cons.IH[OF d k])
  also have "\<dots> = s\<lparr>assetCreatorSet := filter (\<lambda>e. fst e \<notin> (\<lambda>c. key (id_m c)) ` set (c # cs)) (assetCreatorSet s),
             assetSet := filter (\<lambda>(k, a). creatorMessageId a \<notin> id_m ` set (c # cs)) (assetSet s)\<rparr>"
    unfolding s1 by (simp add: a b del: filter_filter)
  finally show ?case .
qed

text \<open>
  Claim C7. In a session whose asset sets are keyed by the ids of what they hold,
  \<^verbatim>\<open>cacheAssetUnload\<close> of a container removes exactly the creators of that container
  and exactly the assets whose \<^verbatim>\<open>creatorMessageId\<close> is the id of a removed creator; the
  other creators and assets stay, in their order, and nothing else of the session
  changes.
\<close>
theorem cacheAssetUnload_cascade:
  assumes "assets_keyed s"
  shows "cacheAssetUnload cid s =
           s\<lparr>assetCreatorSet :=
               filter (\<lambda>(k, c). containerId (payload c) \<noteq> cid) (assetCreatorSet s),
             assetSet :=
               filter (\<lambda>(k, a). creatorMessageId a \<notin>
                         set (map id_m (filter (\<lambda>c. containerId (payload c) = cid)
                                          (map snd (assetCreatorSet s)))))
                 (assetSet s)\<rparr>"
proof -
  let ?cs = "filter (\<lambda>c. containerId (payload c) = cid) (map snd (assetCreatorSet s))"
  have d: "distinct (map fst (assetSet s))" and k: "list_all (\<lambda>(k, a). id_a a = k) (assetSet s)"
    and dc: "distinct (map fst (assetCreatorSet s))"
    and kc: "list_all (\<lambda>(k, c). key (id_m c) = k) (assetCreatorSet s)"
    using assms by (simp_all add: assets_keyed_def)
  have "filter (\<lambda>e. fst e \<notin> (\<lambda>c. key (id_m c)) ` set ?cs) (assetCreatorSet s)
      = filter (\<lambda>(k, c). containerId (payload c) \<noteq> cid) (assetCreatorSet s)"
  proof (rule filter_cong[OF refl])
    fix e assume e: "e \<in> set (assetCreatorSet s)"
    obtain k c where kc': "e = (k, c)" by (cases e)
    have idc: "key (id_m c) = k" using kc e kc' by (auto simp: list_all_iff)
    have "k \<in> (\<lambda>c. key (id_m c)) ` set ?cs \<longleftrightarrow> containerId (payload c) = cid"
    proof
      assume "k \<in> (\<lambda>c. key (id_m c)) ` set ?cs"
      then obtain k' c' where c': "(k', c') \<in> set (assetCreatorSet s)"
          "containerId (payload c') = cid" "key (id_m c') = k"
        by auto
      then have "key (id_m c') = k'" using kc by (auto simp: list_all_iff)
      then have "k' = k" using c'(3) by simp
      then have "c' = c" using c'(1) e kc' dc by (metis eq_key_imp_eq_value)
      then show "containerId (payload c) = cid" using c'(2) by simp
    next
      assume "containerId (payload c) = cid"
      then have "c \<in> set ?cs" using e kc' by force
      moreover note idc
      ultimately show "k \<in> (\<lambda>c. key (id_m c)) ` set ?cs" by blast
    qed
    then show "(fst e \<notin> (\<lambda>c. key (id_m c)) ` set ?cs)
             = (case e of (k, c) \<Rightarrow> containerId (payload c) \<noteq> cid)"
      by (simp add: kc')
  qed
  then show ?thesis
    by (simp add: cacheAssetUnload_def Let_def unload_fold[OF d k])
qed

lemma scenario6_eval:
  "scenario6 = emptySession
     \<lparr>assetCreatorSet := [(''M1'', loadAssets ''M1'' ''CT1''), (''M2'', loadAssets ''M2'' ''CT1''),
                          (''M3'', loadAssets ''M3'' ''CT2'')],
      assetSet := [(''A'', createdAsset ''A'' ''M1''), (''B'', createdAsset ''B'' ''M1''),
                   (''C'', createdAsset ''C'' ''M2''), (''D'', createdAsset ''D'' ''M3'')]\<rparr>"
  by (simp add: scenario6_def cacheAssetCreation_def cacheAssetCreationRequest_def Let_def
        emptySession_def loadAssets_def createdAsset_def key_def)

theorem cacheAssetUnload_cascade_witness:
  "assets_keyed scenario6
   \<and> cacheAssetUnload ''CT1'' scenario6
     = emptySession\<lparr>assetCreatorSet := [(''M3'', loadAssets ''M3'' ''CT2'')],
                    assetSet := [(''D'', createdAsset ''D'' ''M3'')]\<rparr>"
proof -
  have h: "assets_keyed scenario6"
    unfolding scenario6_eval
    by (simp add: assets_keyed_def emptySession_def loadAssets_def createdAsset_def key_def)
  show ?thesis
    using h cacheAssetUnload_cascade[OF h, of "''CT1''"]
    unfolding scenario6_eval
    by (simp add: emptySession_def loadAssets_def createdAsset_def)
qed

section \<open>Properties of the client set\<close>

lemma findIndex_zero: "findIndex P xs = 0 \<longleftrightarrow> (\<exists>y ys. xs = y # ys \<and> P y)"
proof (cases xs)
  case Nil
  then show ?thesis by simp
next
  case (Cons y ys)
  then show ?thesis by (auto simp: Let_def)
qed

lemma set_clients: "set (clients s) = snd ` set (clientSet s)"
  by (simp add: clients_def)

lemma keyed_entry:
  "clients_keyed s \<Longrightarrow> c \<in> set (clients s) \<Longrightarrow> (id_c c, c) \<in> set (clientSet s)"
  by (auto simp: clients_keyed_def set_clients list_all_iff)

text \<open>Two clients of a session that both read as authoritative are the same client.\<close>

lemma authoritative_unique:
  assumes "clients_keyed s" "c1 \<in> set (clients s)" "c2 \<in> set (clients s)"
    and "authoritative s c1 = Inr True" "authoritative s c2 = Inr True"
  shows "c1 = c2"
proof -
  let ?xs = "sort_key order_c (clients s)"
  have "findIndex (\<lambda>client. id_c client = id_c c1) ?xs = 0"
    using assms(4) by (auto simp: authoritative_def split: if_splits)
  then obtain y ys where y1: "?xs = y # ys" "id_c y = id_c c1"
    unfolding findIndex_zero by blast
  have "findIndex (\<lambda>client. id_c client = id_c c2) ?xs = 0"
    using assms(5) by (auto simp: authoritative_def split: if_splits)
  then have "id_c y = id_c c2" unfolding findIndex_zero y1(1) by simp
  then have "id_c c1 = id_c c2" using y1(2) by simp
  moreover have "(id_c c1, c1) \<in> set (clientSet s)" "(id_c c2, c2) \<in> set (clientSet s)"
    using assms(1,2,3) keyed_entry by blast+
  moreover have "distinct (map fst (clientSet s))" using assms(1) by (simp add: clients_keyed_def)
  ultimately show ?thesis by (metis eq_key_imp_eq_value)
qed

lemma clients_keyed_cong: "clientSet s' = clientSet s \<Longrightarrow> clients_keyed s' = clients_keyed s"
  by (simp add: clients_keyed_def)

lemma keyed_update:
  assumes "clients_keyed s" "id_c c = k"
  shows "clients_keyed (s\<lparr>clientSet := AList.update k c (clientSet s)\<rparr>)"
proof -
  have "distinct (map fst (AList.update k c (clientSet s)))"
    using assms(1) by (simp add: clients_keyed_def distinct_update)
  moreover have "list_all (\<lambda>(k, c). id_c c = k) (AList.update k c (clientSet s))"
  proof -
    have "set (AList.update k c xs) \<subseteq> insert (k, c) (set xs)" for xs
      by (induction xs) auto
    then have "set (AList.update k c (clientSet s)) \<subseteq> insert (k, c) (set (clientSet s))" .
    then show ?thesis using assms by (auto simp: clients_keyed_def list_all_iff)
  qed
  ultimately show ?thesis by (simp add: clients_keyed_def)
qed

lemma keyed_delete:
  assumes "clients_keyed s"
  shows "clients_keyed (s\<lparr>clientSet := AList.delete k (clientSet s)\<rparr>)"
  using assms by (auto simp: clients_keyed_def list_all_iff delete_filter distinct_map_filter)

lemma keyed_map_entry:
  assumes "clients_keyed s" "\<And>c. id_c (f c) = id_c c"
  shows "clients_keyed (s\<lparr>clientSet := AList.map_entry k f (clientSet s)\<rparr>)"
proof -
  have "list_all (\<lambda>(k, c). id_c c = k) (AList.map_entry k f xs)"
    if "list_all (\<lambda>(k, c). id_c c = k) xs" for xs
    using that by (induction xs) (auto simp: assms(2))
  moreover have "map fst (AList.map_entry k f xs) = map fst xs" for xs
    by (induction xs) auto
  ultimately show ?thesis using assms(1) by (simp add: clients_keyed_def)
qed

lemma keyed_setAuthoritative:
  assumes "clients_keyed s"
  shows "clients_keyed (s\<lparr>clientSet := map (\<lambda>(k, c). (k, setAuthoritative (k = x) c)) (clientSet s)\<rparr>)"
proof -
  have "fst \<circ> (\<lambda>(k, c). (k, setAuthoritative (k = x) c)) = fst"
    by auto
  moreover have "list_all (\<lambda>(k, c). id_c c = k) (map (\<lambda>(k, c). (k, setAuthoritative (k = x) c)) xs)"
    if "list_all (\<lambda>(k, c). id_c c = k) xs" for xs
    using that by (induction xs) (auto simp: setAuthoritative_def)
  ultimately show ?thesis using assms by (simp add: clients_keyed_def)
qed

lemma keyed_setAuthoritativeClient:
  "clients_keyed s \<Longrightarrow> setAuthoritativeClient x s = Inr s' \<Longrightarrow> clients_keyed s'"
  by (auto simp: setAuthoritativeClient_def keyed_setAuthoritative split: sum.splits option.splits)

lemma keyed_sendToApp: "clients_keyed s \<Longrightarrow> sendToApp m s = Inr s' \<Longrightarrow> clients_keyed s'"
  by (auto simp: sendToApp_def clients_keyed_def split: option.splits)

lemma keyed_shutdownIfEmpty: "clients_keyed s \<Longrightarrow> clients_keyed (shutdownIfEmpty s)"
  by (simp add: shutdownIfEmpty_def clients_keyed_def)

lemma keyed_leave:
  assumes "clients_keyed s"
  shows "clients_keyed (leave k s)"
proof -
  let ?s1 = "s\<lparr>clientSet := AList.delete k (clientSet s)\<rparr>"
  have s1: "clients_keyed ?s1" by (rule keyed_delete[OF assms])
  have sp: "\<And>pl s2. sendPayload pl ?s1 = Inr s2 \<Longrightarrow> clients_keyed s2"
    unfolding sendPayload_def using keyed_sendToApp[OF s1] by blast
  show ?thesis
  proof (cases "map_of (clientSet s) k")
    case None
    then show ?thesis by (simp add: leave_def keyed_shutdownIfEmpty[OF s1])
  next
    case (Some c)
    define r where "r = (case userId c of None \<Rightarrow> Inr ?s1
                    | Some u \<Rightarrow> if u = [] then Inr ?s1
                        else sendPayload \<lparr>ptype = ''user-left'',
                               others = [(''userId'', JStr u)]\<rparr> ?s1)"
    have r: "\<And>s2. r = Inr s2 \<Longrightarrow> clients_keyed s2"
      unfolding r_def using s1 sp by (auto split: option.splits if_splits)
    have "leave k s =
        (case r of
           Inl e \<Rightarrow> ?s1
         | Inr s2 \<Rightarrow>
             (case authoritative s2 c of
                Inl e \<Rightarrow> s2
              | Inr isAuthority \<Rightarrow>
                  if isAuthority then
                    (case find isJoined (clients s2) of
                       None \<Rightarrow> shutdownIfEmpty s2
                     | Some nextClient \<Rightarrow>
                         (case setAuthoritativeClient (id_c nextClient) s2 of
                            Inl e \<Rightarrow> s2
                          | Inr s3 \<Rightarrow> shutdownIfEmpty s3))
                  else shutdownIfEmpty s2))"
      using Some by (simp add: leave_def r_def Let_def)
    then show ?thesis
      using s1 r
      by (auto split: sum.splits option.splits if_splits
               intro: keyed_shutdownIfEmpty keyed_setAuthoritativeClient)
  qed
qed

lemma keyed_join_end: "clients_keyed s \<Longrightarrow> clients_keyed (join_end k s)"
  by (auto simp: join_end_def keyed_leave split: sum.splits option.splits
           intro: keyed_setAuthoritativeClient)

lemma clientSet_cacheActorUpdateMessage [simp]:
  "clientSet (fst (cacheActorUpdateMessage m s)) = clientSet s"
  by (simp add: cacheActorUpdateMessage_def Let_def split: option.splits sum.splits)

lemma clientSet_cacheInitializeActorMessage [simp]:
  "clientSet (cacheInitializeActorMessage m s) = clientSet s"
  by (simp add: cacheInitializeActorMessage_def Let_def split: option.splits)

lemma clientSet_cacheAssetCreation [simp]:
  "clientSet (fst (cacheAssetCreation a c d s)) = clientSet s"
  by (simp add: cacheAssetCreation_def Let_def split: option.splits)

lemma clientSet_cacheAssetUpdate [simp]:
  "clientSet (cacheAssetUpdate m s) = clientSet s"
  by (simp add: cacheAssetUpdate_def Let_def split: option.splits)

lemma clientSet_unloadCreator [simp]: "clientSet (unloadCreator c s) = clientSet s"
proof -
  have a: "clientSet (fold (\<lambda>a s'. s'\<lparr>assetSet := AList.delete (id_a a) (assetSet s')\<rparr>) as s') = clientSet s'"
    for as s'
    by (induction as arbitrary: s') simp_all
  show ?thesis by (simp add: unloadCreator_def Let_def a)
qed

lemma clientSet_cacheAssetUnload [simp]: "clientSet (cacheAssetUnload cid s) = clientSet s"
proof -
  have a: "clientSet (fold unloadCreator cs s') = clientSet s'" for cs s'
    by (induction cs arbitrary: s') simp_all
  show ?thesis by (simp add: cacheAssetUnload_def Let_def a)
qed

text \<open>Every state of a session has its clients under their ids.\<close>

lemma reachable_keyed: "reachable s \<Longrightarrow> clients_keyed s"
proof (induction rule: reachable.induct)
  case (created s)
  then show ?case by (simp add: clients_keyed_def)
next
  case (joining s client)
  show ?case unfolding join_begin_def by (rule keyed_update[OF joining.IH]) simp
next
  case (joined s clientId)
  show ?case by (rule keyed_join_end[OF joined.IH])
next
  case (phase s clientId)
  show ?case unfolding phase_complete_def by (rule keyed_map_entry[OF phase.IH]) simp
next
  case (left s clientId)
  show ?case by (rule keyed_leave[OF left.IH])
next
  case (closed s clientId)
  show ?case unfolding client_leave_def
    by (rule keyed_leave, rule keyed_map_entry[OF closed.IH]) simp
next
  case (sent s m s')
  then show ?case using keyed_sendToApp by blast
next
  case (init_actor s im)
  then show ?case by (simp add: clients_keyed_def)
next
  case (update_actor s um)
  then show ?case by (simp add: clients_keyed_def)
next
  case (asset_request s cm)
  then show ?case by (simp add: clients_keyed_def cacheAssetCreationRequest_def)
next
  case (asset_created s assetId creatorId dur)
  then show ?case by (simp add: clients_keyed_def)
next
  case (asset_updated s am)
  then show ?case by (simp add: clients_keyed_def)
next
  case (asset_unloaded s cid)
  then show ?case by (simp add: clients_keyed_def)
qed

lemma scenario4_eval:
  "scenario4 = emptySession
     \<lparr>clientSet := [(''C1'', memberClient ''C1'' 1 ClientExecution),
                    (''C2'', memberClient ''C2'' 2 ClientHandshake),
                    (''C3'', memberClient ''C3'' 3 ClientExecution)]\<rparr>"
  by (simp add: scenario4_def join_begin_def phase_complete_def emptySession_def
        newClient_def memberClient_def)

lemma scenario4_reachable: "reachable scenario4"
  unfolding scenario4_def
  by (intro reachable.phase reachable.joining reachable.created) (simp add: emptySession_def)

lemma scenario4_clients:
  "clients scenario4 = [memberClient ''C1'' 1 ClientExecution,
                        memberClient ''C2'' 2 ClientHandshake,
                        memberClient ''C3'' 3 ClientExecution]"
  unfolding scenario4_eval by (simp add: clients_def memberClient_def emptySession_def)

lemma scenario4_authoritative:
  "authoritative scenario4 (memberClient ''C1'' 1 ClientExecution) = Inr True"
  "authoritative scenario4 (memberClient ''C2'' 2 ClientHandshake) = Inr False"
  "authoritative scenario4 (memberClient ''C3'' 3 ClientExecution) = Inr False"
  unfolding authoritative_def scenario4_clients by (simp_all add: memberClient_def)

text \<open>
  Claim C8. In every state that a session reaches, at most one of its clients has
  \<^verbatim>\<open>authoritative = true\<close>: two clients of the session for which the getter returns
  true are the same client. The getter does not look at \<^verbatim>\<open>peerAuthoritative\<close>, so this
  holds in particular for a session with \<^verbatim>\<open>peerAuthoritative\<close> true.
\<close>
theorem at_most_one_authoritative:
  assumes "reachable s" "c1 \<in> set (clients s)" "c2 \<in> set (clients s)"
    and "authoritative s c1 = Inr True" "authoritative s c2 = Inr True"
  shows "c1 = c2"
  using authoritative_unique[OF reachable_keyed[OF assms(1)] assms(2-5)] .

theorem at_most_one_authoritative_witness:
  "reachable scenario4
   \<and> peerAuthoritative scenario4
   \<and> memberClient ''C1'' 1 ClientExecution \<in> set (clients scenario4)
   \<and> authoritative scenario4 (memberClient ''C1'' 1 ClientExecution) = Inr True
   \<and> authoritative scenario4 (memberClient ''C2'' 2 ClientHandshake) = Inr False
   \<and> authoritative scenario4 (memberClient ''C3'' 3 ClientExecution) = Inr False
   \<and> memberClient ''C1'' 1 ClientExecution = memberClient ''C1'' 1 ClientExecution"
proof -
  have m: "memberClient ''C1'' 1 ClientExecution \<in> set (clients scenario4)"
    unfolding scenario4_clients by simp
  have p: "peerAuthoritative scenario4"
    unfolding scenario4_eval by (simp add: emptySession_def)
  show ?thesis
    using at_most_one_authoritative[OF scenario4_reachable m m
        scenario4_authoritative(1) scenario4_authoritative(1)]
      scenario4_reachable m p scenario4_authoritative
    by simp
qed

text \<open>
  Claim C10. For a message from a client whose id is not in the session's client set,
  \<^verbatim>\<open>preprocessFromClient\<close> returns no message and \<^verbatim>\<open>recvFromClient\<close> returns without
  calling \<^verbatim>\<open>sendToApp\<close>; the session, the list of messages handed to the app's
  protocol included, is unchanged, whatever the rules are.
\<close>
theorem recvFromClient_unknown_client:
  assumes "map_of (clientSet s) (id_c client) = None"
  shows "preprocessFromClient Rules MissingRule client m s = (None, s)
       \<and> recvFromClient Rules MissingRule client m s = Inr s"
  using assms by (simp add: preprocessFromClient_def recvFromClient_def)

theorem recvFromClient_unknown_client_witness:
  "map_of (clientSet scenario4) (id_c (newClient ''C7'' 7)) = None
   \<and> preprocessFromClient (\<lambda>t. None) noRule (newClient ''C7'' 7) pingMessage scenario4
       = (None, scenario4)
   \<and> recvFromClient (\<lambda>t. None) noRule (newClient ''C7'' 7) pingMessage scenario4 = Inr scenario4
   \<and> recvFromClient (\<lambda>t. None) noRule (memberClient ''C1'' 1 ClientExecution) pingMessage scenario4
       = Inr (scenario4\<lparr>toApp := [pingMessage]\<rparr>)"
proof -
  have h: "map_of (clientSet scenario4) (id_c (newClient ''C7'' 7)) = None"
    unfolding scenario4_eval by (simp add: newClient_def)
  have k: "recvFromClient (\<lambda>t. None) noRule (memberClient ''C1'' 1 ClientExecution) pingMessage scenario4
       = Inr (scenario4\<lparr>toApp := [pingMessage]\<rparr>)"
    unfolding scenario4_eval
    by (simp add: recvFromClient_def preprocessFromClient_def noRule_def pingMessage_def
          memberClient_def sendToApp_def emptySession_def)
  show ?thesis
    using h k recvFromClient_unknown_client[OF h, of "\<lambda>t. None" noRule pingMessage]
    by simp
qed

text \<open>
  Once a client is deleted from the client set, its getter no longer reads true: the
  branch of \<open>leave\<close> that elects the next authoritative client is never taken.
\<close>

lemma removed_client_not_authoritative:
  assumes "clients_keyed s" "map_of (clientSet s) k = Some c"
    and "clientSet s2 = AList.delete k (clientSet s)"
  shows "authoritative s2 c \<noteq> Inr True"
proof
  assume "authoritative s2 c = Inr True"
  then have "findIndex (\<lambda>client. id_c client = id_c c) (sort_key order_c (clients s2)) = 0"
    by (auto simp: authoritative_def split: if_splits)
  then obtain y ys where y: "sort_key order_c (clients s2) = y # ys" "id_c y = id_c c"
    unfolding findIndex_zero by blast
  have "y \<in> set (sort_key order_c (clients s2))" unfolding y(1) by simp
  then have "y \<in> snd ` set (AList.delete k (clientSet s))"
    using assms(3) by (simp add: set_clients)
  then obtain k' where k': "(k', y) \<in> set (clientSet s)" "k' \<noteq> k"
    by (auto simp: delete_filter)
  have "id_c y = k'" using assms(1) k'(1) by (auto simp: clients_keyed_def list_all_iff)
  moreover have "(k, c) \<in> set (clientSet s)" using assms(2) by (rule map_of_SomeD)
  then have "id_c c = k" using assms(1) by (auto simp: clients_keyed_def list_all_iff)
  ultimately show False using y(2) k'(2) by simp
qed

lemma clientSet_shutdownIfEmpty [simp]: "clientSet (shutdownIfEmpty s) = clientSet s"
  by (simp add: shutdownIfEmpty_def)

lemma clientSet_sendPayload: "sendPayload pl s = Inr s' \<Longrightarrow> clientSet s' = clientSet s"
  by (auto simp: sendPayload_def sendToApp_def split: option.splits)

lemma leave_clientSet:
  assumes "clients_keyed s"
  shows "clientSet (leave k s) = AList.delete k (clientSet s)"
proof (cases "map_of (clientSet s) k")
  case None
  then show ?thesis by (simp add: leave_def)
next
  case (Some c)
  let ?s1 = "s\<lparr>clientSet := AList.delete k (clientSet s)\<rparr>"
  define r where "r = (case userId c of None \<Rightarrow> Inr ?s1
                    | Some u \<Rightarrow> if u = [] then Inr ?s1
                        else sendPayload \<lparr>ptype = ''user-left'',
                               others = [(''userId'', JStr u)]\<rparr> ?s1)"
  have r: "clientSet s2 = AList.delete k (clientSet s)" if a: "r = Inr s2" for s2
  proof (cases "userId c")
    case None
    then show ?thesis using a by (auto simp: r_def)
  next
    case (Some u)
    show ?thesis
    proof (cases "u = []")
      case True
      then show ?thesis using a Some by (auto simp: r_def)
    next
      case False
      then have "sendPayload \<lparr>ptype = ''user-left'', others = [(''userId'', JStr u)]\<rparr> ?s1 = Inr s2"
        using a Some by (simp add: r_def)
      then have "clientSet s2 = clientSet ?s1" by (rule clientSet_sendPayload)
      then show ?thesis by simp
    qed
  qed
  have na: "authoritative s2 c \<noteq> Inr True" if "r = Inr s2" for s2
    using removed_client_not_authoritative[OF assms Some r[OF that]] .
  have "leave k s =
      (case r of
         Inl e \<Rightarrow> ?s1
       | Inr s2 \<Rightarrow>
           (case authoritative s2 c of
              Inl e \<Rightarrow> s2
            | Inr isAuthority \<Rightarrow>
                if isAuthority then
                  (case find isJoined (clients s2) of
                     None \<Rightarrow> shutdownIfEmpty s2
                   | Some nextClient \<Rightarrow>
                       (case setAuthoritativeClient (id_c nextClient) s2 of
                          Inl e \<Rightarrow> s2
                        | Inr s3 \<Rightarrow> shutdownIfEmpty s3))
                else shutdownIfEmpty s2))"
    using Some by (simp add: leave_def r_def Let_def)
  note unfolded = this
  show ?thesis
  proof (cases r)
    case (Inl e)
    then show ?thesis unfolding unfolded by simp
  next
    case (Inr s2)
    note cs = r[OF Inr] and no = na[OF Inr]
    show ?thesis
    proof (cases "authoritative s2 c")
      case (Inl e)
      then show ?thesis unfolding unfolded using Inr cs by simp
    next
      case inr: (Inr b)
      then have "\<not> b" using no by auto
      then show ?thesis unfolding unfolded using Inr inr cs by simp
    qed
  qed
qed

text \<open>
  What the getters compute: the authoritative client of a session is the first of its
  clients by order, whatever its phase.
\<close>
lemma authoritativeClient_first:
  "authoritativeClient s =
     (case clients s of
        [] \<Rightarrow> Inr None
      | c # cs \<Rightarrow> if session_c c then Inr (Some c) else Inl TypeError)"
proof (cases "clients s")
  case Nil
  then show ?thesis by (simp add: authoritativeClient_def)
next
  case (Cons c cs)
  have "sorted (map order_c (clients s))" unfolding clients_def by (rule sorted_sort_key)
  then have "sort_key order_c (clients s) = clients s" by (rule sort_key_id_if_sorted)
  then have "authoritative s c = (if session_c c then Inr True else Inl TypeError)"
    by (simp add: authoritative_def Cons)
  then show ?thesis by (simp add: authoritativeClient_def Cons)
qed

lemma leave_next_authoritative:
  assumes "clients_keyed s"
  shows "authoritativeClient (leave k s) =
     (case sort_key order_c (map snd (AList.delete k (clientSet s))) of
        [] \<Rightarrow> Inr None
      | c # cs \<Rightarrow> if session_c c then Inr (Some c) else Inl TypeError)"
  unfolding authoritativeClient_first by (simp add: clients_def leave_clientSet[OF assms])

lemma client_leave_scenario4:
  "client_leave ''C1'' scenario4 = emptySession
     \<lparr>clientSet := [(''C2'', memberClient ''C2'' 2 ClientHandshake),
                    (''C3'', memberClient ''C3'' 3 ClientExecution)]\<rparr>"
  unfolding scenario4_eval
  by (simp add: client_leave_def leave_def Let_def emptySession_def memberClient_def
        authoritative_def clients_def shutdownIfEmpty_def)

lemma leave_scenario4:
  "leave ''C1'' scenario4 = emptySession
     \<lparr>clientSet := [(''C2'', memberClient ''C2'' 2 ClientHandshake),
                    (''C3'', memberClient ''C3'' 3 ClientExecution)]\<rparr>"
  unfolding scenario4_eval
  by (simp add: leave_def Let_def emptySession_def memberClient_def authoritative_def
        clients_def shutdownIfEmpty_def)

text \<open>
  Claim C2, at an input: a session with \<^verbatim>\<open>peerAuthoritative\<close> true and three clients,
  \<^verbatim>\<open>C1\<close> (order 1, in execution, authoritative), \<^verbatim>\<open>C2\<close> (order 2, still in its
  handshake) and \<^verbatim>\<open>C3\<close> (order 3, in execution). After \<^verbatim>\<open>C1\<close> leaves, by a call
  of \<^verbatim>\<open>Session.leave\<close> or by the \<^verbatim>\<open>close\<close> of its own \<^verbatim>\<open>Client.leave\<close>, the
  authoritative client is \<^verbatim>\<open>C2\<close>, the first of the remaining clients by order, and
  not \<^verbatim>\<open>C3\<close>, the first of those that have reached execution, which is the client
  that the search in \<^verbatim>\<open>leave\<close> would select.
\<close>
theorem leave_authoritative_handoff:
  "peerAuthoritative scenario4
   \<and> clients scenario4 = [memberClient ''C1'' 1 ClientExecution,
                           memberClient ''C2'' 2 ClientHandshake,
                           memberClient ''C3'' 3 ClientExecution]
   \<and> authoritativeClient scenario4 = Inr (Some (memberClient ''C1'' 1 ClientExecution))
   \<and> client_leave ''C1'' scenario4 = leave ''C1'' scenario4
   \<and> clients (leave ''C1'' scenario4) = [memberClient ''C2'' 2 ClientHandshake,
                                          memberClient ''C3'' 3 ClientExecution]
   \<and> authoritativeClient (leave ''C1'' scenario4)
       = Inr (Some (memberClient ''C2'' 2 ClientHandshake))
   \<and> find isJoined (clients (leave ''C1'' scenario4))
       = Some (memberClient ''C3'' 3 ClientExecution)"
proof -
  have c: "clients (leave ''C1'' scenario4) = [memberClient ''C2'' 2 ClientHandshake,
                                          memberClient ''C3'' 3 ClientExecution]"
    unfolding leave_scenario4 by (simp add: clients_def memberClient_def emptySession_def)
  have a: "authoritativeClient (leave ''C1'' scenario4)
       = Inr (Some (memberClient ''C2'' 2 ClientHandshake))"
    unfolding authoritativeClient_def authoritative_def c by (simp add: memberClient_def)
  have j: "find isJoined (clients (leave ''C1'' scenario4))
       = Some (memberClient ''C3'' 3 ClientExecution)"
    unfolding c by (simp add: isJoined_def memberClient_def)
  have a0: "authoritativeClient scenario4 = Inr (Some (memberClient ''C1'' 1 ClientExecution))"
    unfolding authoritativeClient_def authoritative_def scenario4_clients
    by (simp add: memberClient_def)
  have p: "peerAuthoritative scenario4"
    unfolding scenario4_eval by (simp add: emptySession_def)
  have e: "client_leave ''C1'' scenario4 = leave ''C1'' scenario4"
    unfolding leave_scenario4 client_leave_scenario4 ..
  show ?thesis using p scenario4_clients a0 e c a j by simp
qed

section \<open>Properties of the protocol\<close>

lemma reject_settled_mono:
  "x \<in> set (settled st) \<Longrightarrow> x \<in> set (settled (rejectPromiseForMessage k r st))"
  by (simp add: rejectPromiseForMessage_def clearTimeout_def Let_def split: option.splits)

lemma reject_absent:
  "map_of (promises st) k = None \<Longrightarrow> map_of (promises (rejectPromiseForMessage k' r st)) k = None"
  by (simp add: rejectPromiseForMessage_def clearTimeout_def Let_def delete_conv'
           split: option.splits)

lemma reject_closed [simp]: "closed_c (rejectPromiseForMessage k r st) = closed_c st"
  by (simp add: rejectPromiseForMessage_def clearTimeout_def Let_def split: option.splits)

lemma fold_reject_settled_mono:
  "x \<in> set (settled st) \<Longrightarrow>
   x \<in> set (settled (fold (\<lambda>k. rejectPromiseForMessage k r) ks st))"
  by (induction ks arbitrary: st) (simp_all add: reject_settled_mono)

lemma fold_reject_absent:
  "map_of (promises st) k = None \<Longrightarrow>
   map_of (promises (fold (\<lambda>k. rejectPromiseForMessage k r) ks st)) k = None"
  by (induction ks arbitrary: st) (simp_all add: reject_absent)

lemma fold_reject_closed [simp]:
  "closed_c (fold (\<lambda>k. rejectPromiseForMessage k r) ks st) = closed_c st"
  by (induction ks arbitrary: st) simp_all

text \<open>Rejecting an entry whose promise can be rejected.\<close>

lemma reject_present:
  assumes "map_of (promises st) k = Some qp" "reject_defined (promise qp)"
  shows "promises (rejectPromiseForMessage k r st) = AList.delete k (promises st)"
    and "settled (rejectPromiseForMessage k r st) = settled st @ [Rejected (promiseId (promise qp)) r]"
  using assms
  by (simp_all add: rejectPromiseForMessage_def clearTimeout_def Let_def split: option.splits)

lemma timeout_reason_contains_type: "sublist (ptype (payload m)) (timeout_reason nm m)"
proof -
  have "timeout_reason nm m =
      (nm @ '' timed out awaiting response for '') @ ptype (payload m) @ ('', id:'' @ key (id_m m) @ ''.'')"
    by (simp add: timeout_reason_def)
  then show ?thesis unfolding sublist_def by blast
qed

text \<open>What \<open>sendMessage\<close> registers for a message that is to be answered in time.\<close>

lemma sendMessage_registers:
  assumes "run_beforeSend (middlewares st)
             (m\<lparr>id_m := (case id_m m of None \<Rightarrow> Some uuid
                          | Some i \<Rightarrow> if i = [] then Some uuid else Some i)\<rparr>) (Some p) = Some m1"
    and "0 < t"
  shows "map_of (timers (sendMessage uuid m (Some p) (Some t) st)) (nextTimer st)
           = Some \<lparr>delay = t * 1000, timer_message = m1\<rparr>"
    and "map_of (promises (sendMessage uuid m (Some p) (Some t) st)) (key (id_m m1))
           = Some \<lparr>promise = p, timeout = Some (nextTimer st)\<rparr>"
    and "sent_c (sendMessage uuid m (Some p) (Some t) st) = sent_c st @ [m1]"
  using assms by (simp_all add: sendMessage_def Let_def update_conv')

text \<open>
  Claim C4. \<^verbatim>\<open>sendMessage\<close> with a promise and \<^verbatim>\<open>timeoutSeconds > 0\<close> sets a timer
  that holds the message, and stores the promise with the timer's handle under the
  message's id (lemma \<open>sendMessage_registers\<close>). When that timer fires while
  the reply is still outstanding (the entry is still there, no reply has removed it and
  cleared the timer) and the promise has a \<^verbatim>\<open>reject\<close> callback, as an
  \<^verbatim>\<open>ExportedPromise\<close> has, then: the promise is rejected with the reason built from
  the protocol's name, the payload type and the id of the message, the payload type is a
  part of that reason, the entry is gone from the outstanding replies, and the connection
  is closed.
\<close>
theorem reply_timeout_rejects_and_closes:
  assumes "map_of (timers st) h = Some t"
    and "map_of (promises st) (key (id_m (timer_message t))) = Some qp"
    and "reject_defined (promise qp)"
  shows "Rejected (promiseId (promise qp)) (Some (timeout_reason (name st) (timer_message t)))
           \<in> set (settled (fire_timeout h st))
       \<and> sublist (ptype (payload (timer_message t))) (timeout_reason (name st) (timer_message t))
       \<and> map_of (promises (fire_timeout h st)) (key (id_m (timer_message t))) = None
       \<and> closed_c (fire_timeout h st)"
proof -
  let ?k = "key (id_m (timer_message t))"
  let ?reason = "timeout_reason (name st) (timer_message t)"
  let ?st1 = "st\<lparr>timers := AList.delete h (timers st)\<rparr>"
  let ?st2 = "rejectPromiseForMessage ?k (Some ?reason) ?st1"
  have fire: "fire_timeout h st = conn_close ?st2"
    using assms(1) by (simp add: fire_timeout_def Let_def)
  have look: "map_of (promises ?st1) ?k = Some qp" using assms(2) by simp
  have s2: "Rejected (promiseId (promise qp)) (Some ?reason) \<in> set (settled ?st2)"
    unfolding reject_present(2)[OF look assms(3)] by simp
  have p2: "map_of (promises ?st2) ?k = None"
    unfolding reject_present(1)[OF look assms(3)] by (simp add: delete_conv')
  have "Rejected (promiseId (promise qp)) (Some ?reason) \<in> set (settled (conn_close ?st2))"
    using s2 by (simp add: conn_close_def onClose_def Let_def fold_reject_settled_mono)
  moreover have "map_of (promises (conn_close ?st2)) ?k = None"
    using p2 by (simp add: conn_close_def onClose_def Let_def fold_reject_absent)
  moreover have "closed_c (conn_close ?st2)"
    by (simp add: conn_close_def onClose_def Let_def)
  ultimately show ?thesis unfolding fire using timeout_reason_contains_type by blast
qed

text \<open>The loop of \<open>onClose\<close>, when every promise can be rejected.\<close>

lemma onClose_fold:
  assumes "promises st = ps" "distinct (map fst ps)"
    and "list_all (\<lambda>(k, qp). reject_defined (promise qp)) ps"
  shows "promises (fold (\<lambda>k. rejectPromiseForMessage k r) (map fst ps) st) = []
       \<and> settled (fold (\<lambda>k. rejectPromiseForMessage k r) (map fst ps) st)
           = settled st @ map (\<lambda>(k, qp). Rejected (promiseId (promise qp)) r) ps"
  using assms
proof (induction ps arbitrary: st)
  case Nil
  then show ?case by simp
next
  case (Cons e ps)
  obtain k qp where e: "e = (k, qp)" by (cases e)
  let ?st1 = "rejectPromiseForMessage k r st"
  have look: "map_of (promises st) k = Some qp" using Cons.prems(1) e by simp
  have rd: "reject_defined (promise qp)" using Cons.prems(3) e by simp
  have "k \<notin> fst ` set ps" using Cons.prems(2) e by simp
  then have "AList.delete k ps = ps" by (rule delete_id)
  then have p1: "promises ?st1 = ps"
    unfolding reject_present(1)[OF look rd] using Cons.prems(1) e by simp
  have s1: "settled ?st1 = settled st @ [Rejected (promiseId (promise qp)) r]"
    by (rule reject_present(2)[OF look rd])
  have "promises (fold (\<lambda>k. rejectPromiseForMessage k r) (map fst ps) ?st1) = []
       \<and> settled (fold (\<lambda>k. rejectPromiseForMessage k r) (map fst ps) ?st1)
           = settled ?st1 @ map (\<lambda>(k, qp). Rejected (promiseId (promise qp)) r) ps"
    using Cons.prems(2,3) by (intro Cons.IH[OF p1]) simp_all
  then show ?case by (simp add: e s1)
qed

lemma awaitingHandshake_eval:
  "awaitingHandshake =
     \<lparr>name = ''ClientHandshake'', middlewares = [], listening = True,
      promises = [(''u1'', \<lparr>promise = \<lparr>promiseId = 1, reject_defined = True\<rparr>,
                            timeout = Some 0\<rparr>)],
      sent_c = [handshakeMessage\<lparr>id_m := Some ''u1''\<rparr>], closed_c = False,
      timers = [(0, \<lparr>delay = 5000, timer_message = handshakeMessage\<lparr>id_m := Some ''u1''\<rparr>\<rparr>)],
      nextTimer = Suc 0, settled = []\<rparr>"
  by (simp add: awaitingHandshake_def sendMessage_def clientHandshake_def handshakeMessage_def
        key_def Let_def)

lemma awaitingTwo_eval:
  "awaitingTwo =
     \<lparr>name = ''ClientHandshake'', middlewares = [], listening = True,
      promises = [(''u1'', \<lparr>promise = \<lparr>promiseId = 1, reject_defined = True\<rparr>,
                            timeout = Some 0\<rparr>),
                  (''hb'', \<lparr>promise = \<lparr>promiseId = 2, reject_defined = True\<rparr>,
                            timeout = None\<rparr>)],
      sent_c = [handshakeMessage\<lparr>id_m := Some ''u1''\<rparr>, heartbeatMessage], closed_c = False,
      timers = [(0, \<lparr>delay = 5000, timer_message = handshakeMessage\<lparr>id_m := Some ''u1''\<rparr>\<rparr>)],
      nextTimer = Suc 0, settled = []\<rparr>"
  unfolding awaitingTwo_def awaitingHandshake_eval
  by (simp add: sendMessage_def heartbeatMessage_def key_def Let_def)

text \<open>
  Counterexample to claim C5 as stated: a close event after \<^verbatim>\<open>stopListening\<close>, the
  order in which \<^verbatim>\<open>Client.leave\<close> makes the two calls. The handler is detached, the
  connection closes, and both outstanding replies stay in the map, neither of them
  rejected.
\<close>
theorem close_after_stopListening_keeps_promises:
  "listening awaitingTwo
   \<and> \<not> listening (stopListening awaitingTwo)
   \<and> promises (stopListening awaitingTwo)
       = [(''u1'', \<lparr>promise = \<lparr>promiseId = 1, reject_defined = True\<rparr>, timeout = Some 0\<rparr>),
          (''hb'', \<lparr>promise = \<lparr>promiseId = 2, reject_defined = True\<rparr>, timeout = None\<rparr>)]
   \<and> closed_c (conn_close (stopListening awaitingTwo))
   \<and> promises (conn_close (stopListening awaitingTwo))
       = [(''u1'', \<lparr>promise = \<lparr>promiseId = 1, reject_defined = True\<rparr>, timeout = Some 0\<rparr>),
          (''hb'', \<lparr>promise = \<lparr>promiseId = 2, reject_defined = True\<rparr>, timeout = None\<rparr>)]
   \<and> promises (conn_close (stopListening awaitingTwo)) \<noteq> []
   \<and> settled (conn_close (stopListening awaitingTwo)) = []"
  unfolding awaitingTwo_eval by (simp add: stopListening_def conn_close_def Let_def)

text \<open>
  Claim C5, amended. For a protocol that is listening to its connection (its handler
  \<^verbatim>\<open>onClose\<close> attached by \<^verbatim>\<open>startListening\<close> and not detached since by
  \<^verbatim>\<open>stopListening\<close>), when the connection closes and emits \<^verbatim>\<open>close\<close>, every outstanding
  reply, each with its \<^verbatim>\<open>reject\<close> callback as an \<^verbatim>\<open>ExportedPromise\<close> has, is rejected
  with the reason \<^verbatim>\<open>"Connection closed."\<close>, in the order of the entries and once each,
  and afterwards there is no outstanding reply. (\<^verbatim>\<open>conn.promises\<close> is an object: each
  key once.)
\<close>
theorem close_event_rejects_all:
  assumes "listening st"
    and "distinct (map fst (promises st))"
    and "list_all (\<lambda>(k, qp). reject_defined (promise qp)) (promises st)"
  shows "promises (conn_close st) = []
       \<and> settled (conn_close st)
           = settled st @ map (\<lambda>(k, qp). Rejected (promiseId (promise qp))
                                            (Some ''Connection closed.'')) (promises st)"
proof -
  let ?st1 = "st\<lparr>closed_c := True\<rparr>"
  have c: "conn_close st = onClose ?st1"
    using assms(1) by (simp add: conn_close_def Let_def)
  have p: "promises ?st1 = promises st" by simp
  have "promises (onClose ?st1) = []
       \<and> settled (onClose ?st1)
           = settled ?st1 @ map (\<lambda>(k, qp). Rejected (promiseId (promise qp))
                                            (Some ''Connection closed.'')) (promises st)"
    unfolding onClose_def p by (rule onClose_fold[OF p assms(2,3)])
  then show ?thesis unfolding c by simp
qed

theorem reply_timeout_rejects_and_closes_witness:
  "map_of (timers awaitingHandshake) 0
     = Some \<lparr>delay = 5000, timer_message = handshakeMessage\<lparr>id_m := Some ''u1''\<rparr>\<rparr>
   \<and> map_of (promises awaitingHandshake) ''u1''
     = Some \<lparr>promise = \<lparr>promiseId = 1, reject_defined = True\<rparr>, timeout = Some 0\<rparr>
   \<and> Rejected 1 (Some ''ClientHandshake timed out awaiting response for handshake, id:u1.'')
       \<in> set (settled (fire_timeout 0 awaitingHandshake))
   \<and> sublist ''handshake'' ''ClientHandshake timed out awaiting response for handshake, id:u1.''
   \<and> map_of (promises (fire_timeout 0 awaitingHandshake)) ''u1'' = None
   \<and> closed_c (fire_timeout 0 awaitingHandshake)"
proof -
  let ?t = "\<lparr>delay = 5000, timer_message = handshakeMessage\<lparr>id_m := Some ''u1''\<rparr>\<rparr>"
  let ?qp = "\<lparr>promise = \<lparr>promiseId = 1, reject_defined = True\<rparr>, timeout = Some 0\<rparr>"
  have h1: "map_of (timers awaitingHandshake) 0 = Some ?t"
    unfolding awaitingHandshake_eval by simp
  have h2: "map_of (promises awaitingHandshake) (key (id_m (timer_message ?t))) = Some ?qp"
    unfolding awaitingHandshake_eval by (simp add: key_def)
  have h3: "reject_defined (promise ?qp)" by simp
  have n: "name awaitingHandshake = ''ClientHandshake''"
    unfolding awaitingHandshake_eval by simp
  show ?thesis
    using h1 h2 reply_timeout_rejects_and_closes[OF h1 h2 h3]
    by (simp add: n timeout_reason_def handshakeMessage_def key_def)
qed

theorem close_event_rejects_all_witness:
  "listening awaitingTwo
   \<and> distinct (map fst (promises awaitingTwo))
   \<and> list_all (\<lambda>(k, qp). reject_defined (promise qp)) (promises awaitingTwo)
   \<and> promises awaitingTwo
       = [(''u1'', \<lparr>promise = \<lparr>promiseId = 1, reject_defined = True\<rparr>, timeout = Some 0\<rparr>),
          (''hb'', \<lparr>promise = \<lparr>promiseId = 2, reject_defined = True\<rparr>, timeout = None\<rparr>)]
   \<and> promises (conn_close awaitingTwo) = []
   \<and> settled (conn_close awaitingTwo)
       = [Rejected 1 (Some ''Connection closed.''), Rejected 2 (Some ''Connection closed.'')]"
proof -
  have h0: "listening awaitingTwo"
    unfolding awaitingTwo_eval by simp
  have h1: "distinct (map fst (promises awaitingTwo))"
    unfolding awaitingTwo_eval by simp
  have h2: "list_all (\<lambda>(k, qp). reject_defined (promise qp)) (promises awaitingTwo)"
    unfolding awaitingTwo_eval by simp
  show ?thesis
    using h0 h1 h2 close_event_rejects_all[OF h0 h1 h2]
    by (simp add: awaitingTwo_eval)
qed

end
